theory Spec2Isabelle
  imports Main "HOL-Library.Char_ord" "HOL-Library.List_Lexorder" "HOL-Library.AList"
    "HOL-Library.Multiset"
begin

section \<open>Strings and characters\<close>

text \<open>
  Python strings are modelled as \<open>string\<close> (lists of 8-bit characters), read as ASCII text.
  The character classes of the regular expressions in \<^verbatim>\<open>db_sync.py\<close> are ASCII ranges;
  \<^verbatim>\<open>str.lower\<close> and \<^verbatim>\<open>str.upper\<close> act on the ASCII letters and leave every other
  character alone. Case mapping of non-ASCII text is outside this model.
\<close>

definition is_upper :: "char \<Rightarrow> bool" where
  \<comment> \<open>the class \<^verbatim>\<open>[A-Z]\<close>\<close>
  "is_upper c = (65 \<le> (of_char c :: nat) \<and> (of_char c :: nat) \<le> 90)"

definition is_lower :: "char \<Rightarrow> bool" where
  \<comment> \<open>the class \<^verbatim>\<open>[a-z]\<close>\<close>
  "is_lower c = (97 \<le> (of_char c :: nat) \<and> (of_char c :: nat) \<le> 122)"

definition is_digit :: "char \<Rightarrow> bool" where
  \<comment> \<open>the class \<^verbatim>\<open>\d\<close>\<close>
  "is_digit c = (48 \<le> (of_char c :: nat) \<and> (of_char c :: nat) \<le> 57)"

definition to_lower :: "char \<Rightarrow> char" where
  "to_lower c = (if is_upper c then char_of ((of_char c :: nat) + 32) else c)"

definition to_upper :: "char \<Rightarrow> char" where
  "to_upper c = (if is_lower c then char_of ((of_char c :: nat) - 32) else c)"

definition lower :: "string \<Rightarrow> string" where
  \<comment> \<open>\<^verbatim>\<open>s.lower()\<close>\<close>
  "lower s = map to_lower s"

definition replace_char :: "char \<Rightarrow> char \<Rightarrow> string \<Rightarrow> string" where
  \<comment> \<open>\<^verbatim>\<open>s.replace(a, b)\<close> for one-character strings \<open>a\<close> and \<open>b\<close>\<close>
  "replace_char a b s = map (\<lambda>c. if c = a then b else c) s"

fun join :: "string \<Rightarrow> string list \<Rightarrow> string" where
  \<comment> \<open>\<^verbatim>\<open>sep.join(xs)\<close>\<close>
  "join sep [] = []"
| "join sep [x] = x"
| "join sep (x # y # ys) = x @ sep @ join sep (y # ys)"

fun is_substring :: "string \<Rightarrow> string \<Rightarrow> bool" where
  \<comment> \<open>\<^verbatim>\<open>x in s\<close> for two strings\<close>
  "is_substring x [] = (x = [])"
| "is_substring x (c # cs) = (take (length x) (c # cs) = x \<or> is_substring x cs)"

section \<open>Regular-expression substitution\<close>

text \<open>
  \<^verbatim>\<open>re.sub(pattern, repl, s)\<close> scans \<open>s\<close> from the left. At each position it tries to match
  the pattern there; on a match it emits the replacement and resumes after the matched
  text, otherwise it copies one character and moves on. The matcher \<open>m\<close> gives, for the
  text at the current position, the replacement and the number of characters matched.
  No pattern of this program matches the empty string.
\<close>

function re_sub :: "(string \<Rightarrow> (string \<times> nat) option) \<Rightarrow> string \<Rightarrow> string" where
  "re_sub m [] = []"
| "re_sub m (c # cs) =
     (case m (c # cs) of
        None \<Rightarrow> c # re_sub m cs
      | Some (repl, n) \<Rightarrow>
          if n = 0 then c # re_sub m cs else repl @ re_sub m (drop n (c # cs)))"
  by pat_completeness auto
termination
  by (relation "measure (\<lambda>(m, s). length s)") auto

definition m_upper_sep_pair :: "string \<Rightarrow> (string \<times> nat) option" where
  \<comment> \<open>\<^verbatim>\<open>([A-Z]+)_([A-Z][a-z])\<close> replaced by \<^verbatim>\<open>\1__\2\<close>: the greedy run of capitals must be
      followed by an underscore (never a capital), so only the whole run can be group 1\<close>
  "m_upper_sep_pair s =
     (let run = takeWhile is_upper s; rest = dropWhile is_upper s in
      case rest of
        u # a # b # _ \<Rightarrow>
          if run \<noteq> [] \<and> u = CHR ''_'' \<and> is_upper a \<and> is_lower b
          then Some (run @ ''__'' @ [a, b], length run + 3) else None
      | _ \<Rightarrow> None)"

definition m_lower_sep_upper :: "string \<Rightarrow> (string \<times> nat) option" where
  \<comment> \<open>\<^verbatim>\<open>([a-z\d])_([A-Z])\<close> replaced by \<^verbatim>\<open>\1__\2\<close>\<close>
  "m_lower_sep_upper s =
     (case s of
        a # u # b # _ \<Rightarrow>
          if (is_lower a \<or> is_digit a) \<and> u = CHR ''_'' \<and> is_upper b
          then Some ([a] @ ''__'' @ [b], 3) else None
      | _ \<Rightarrow> None)"

definition m_upper_pair :: "string \<Rightarrow> (string \<times> nat) option" where
  \<comment> \<open>\<^verbatim>\<open>([A-Z]+)([A-Z][a-z])\<close> replaced by \<^verbatim>\<open>\1_\2\<close>: group 2 starts with a capital that is
      followed by a small letter, so it is the last capital of the run, and group 1 is the
      run without it (at least one capital)\<close>
  "m_upper_pair s =
     (let run = takeWhile is_upper s; rest = dropWhile is_upper s in
      case rest of
        b # _ \<Rightarrow>
          if 2 \<le> length run \<and> is_lower b
          then Some (butlast run @ ''_'' @ [last run, b], length run + 1) else None
      | _ \<Rightarrow> None)"

definition m_lower_upper :: "string \<Rightarrow> (string \<times> nat) option" where
  \<comment> \<open>\<^verbatim>\<open>([a-z\d])([A-Z])\<close> replaced by \<^verbatim>\<open>\1_\2\<close>\<close>
  "m_lower_upper s =
     (case s of
        a # b # _ \<Rightarrow>
          if (is_lower a \<or> is_digit a) \<and> is_upper b then Some ([a] @ ''_'' @ [b], 2) else None
      | _ \<Rightarrow> None)"

definition m_sep_any :: "string \<Rightarrow> (string \<times> nat) option" where
  \<comment> \<open>\<^verbatim>\<open>_(.)\<close> replaced by the capital of group 1; \<^verbatim>\<open>.\<close> is any character but a newline\<close>
  "m_sep_any s =
     (case s of
        u # b # _ \<Rightarrow>
          if u = CHR ''_'' \<and> b \<noteq> CHR 0x0A then Some ([to_upper b], 2) else None
      | _ \<Rightarrow> None)"

section \<open>The inflection library\<close>

text \<open>
  \<^verbatim>\<open>inflection.underscore\<close> and \<^verbatim>\<open>inflection.camelize\<close> come from the third-party
  package \<^verbatim>\<open>inflection\<close>, which \<^verbatim>\<open>db_sync.py\<close> imports. They are modelled after the
  package:
  \<^verbatim>\<open>
  def underscore(word):
      word = re.sub(r"([A-Z]+)([A-Z][a-z])", r'\1_\2', word)
      word = re.sub(r"([a-z\d])([A-Z])", r'\1_\2', word)
      word = word.replace("-", "_")
      return word.lower()

  def camelize(string, uppercase_first_letter=True):
      if uppercase_first_letter:
          return re.sub(r"(?:^|_)(.)", lambda m: m.group(1).upper(), string)
  \<close>
\<close>

definition underscore :: "string \<Rightarrow> string" where
  "underscore word =
     lower (replace_char (CHR ''-'') (CHR ''_'') (re_sub m_lower_upper (re_sub m_upper_pair word)))"

fun camelize :: "string \<Rightarrow> string" where
  \<comment> \<open>\<^verbatim>\<open>^\<close> holds at the first position only: there the first character is group 1 unless it
      is a newline; from the second position on a match needs the underscore\<close>
  "camelize [] = []"
| "camelize (c # cs) = (if c \<noteq> CHR 0x0A then to_upper c else c) # re_sub m_sep_any cs"

section \<open>Identifiers\<close>

definition inflect_column_name :: "string \<Rightarrow> string" where
  "inflect_column_name name =
     underscore (re_sub m_lower_sep_upper (re_sub m_upper_sep_pair name))"

definition safe_column_name :: "string \<Rightarrow> string" where
  "safe_column_name name = ''\"'' @ name @ ''\"''"

definition reduce_segment :: "string \<Rightarrow> string" where
  \<comment> \<open>the body of the \<^verbatim>\<open>while\<close> loop of \<^verbatim>\<open>flatten_key\<close>, for one segment\<close>
  "reduce_segment seg =
     (let reduced_key = filter (\<lambda>c. \<not> is_lower c) (camelize seg)
      in lower (if 1 < length reduced_key then reduced_key else take 3 seg))"

function reduce_loop :: "string \<Rightarrow> string list \<Rightarrow> nat \<Rightarrow> string list" where
  "reduce_loop sep inflected_key reducer_index =
     (if 63 \<le> length (join sep inflected_key) \<and> reducer_index < length inflected_key
      then reduce_loop sep
             (inflected_key[reducer_index := reduce_segment (inflected_key ! reducer_index)])
             (Suc reducer_index)
      else inflected_key)"
  by pat_completeness auto
termination
  by (relation "measure (\<lambda>(sep, ks, i). length ks - i)") auto

declare reduce_loop.simps [simp del]

definition flatten_key :: "string \<Rightarrow> string list \<Rightarrow> string \<Rightarrow> string" where
  "flatten_key k parent_key sep =
     join sep (reduce_loop sep (map inflect_column_name (parent_key @ [k])) 0)"

text \<open>
  The two boundary passes as the specification words them, followed by lowercasing.
\<close>

definition spec_snake_case :: "string \<Rightarrow> string" where
  "spec_snake_case name = lower (re_sub m_lower_upper (re_sub m_upper_pair name))"

fun sep_before_upper :: "string \<Rightarrow> bool" where
  \<comment> \<open>some underscore of the name stands directly before a capital\<close>
  "sep_before_upper (a # b # cs) = ((a = CHR ''_'' \<and> is_upper b) \<or> sep_before_upper (b # cs))"
| "sep_before_upper _ = False"

definition lowered :: "string \<Rightarrow> bool" where
  \<comment> \<open>no capital and no hyphen: what \<^verbatim>\<open>inflection.underscore\<close> leaves\<close>
  "lowered s = list_all (\<lambda>c. \<not> is_upper c \<and> c \<noteq> CHR ''-'') s"

section \<open>JSON values and Python's operations on them\<close>

text \<open>
  Schemas and records are the trees \<^verbatim>\<open>json.loads\<close> produces. A \<^verbatim>\<open>dict\<close> is an association
  list in insertion order; a well-formed one has pairwise distinct keys. Floating-point
  numbers are left out.
\<close>

datatype json =
    JNull
  | JBool bool
  | JNum int
  | JStr string
  | JArr "json list"
  | JObj "(string \<times> json) list"

datatype error =
    ValueError string
  | KeyError string
  | TypeError
  | AttributeError
  | IndexError
  | DataError
  | DatabaseError

definition truthy :: "json \<Rightarrow> bool" where
  \<comment> \<open>Python's truth value; \<^verbatim>\<open>not v\<close> is its negation\<close>
  "truthy v =
     (case v of
        JNull \<Rightarrow> False
      | JBool b \<Rightarrow> b
      | JNum n \<Rightarrow> n \<noteq> 0
      | JStr s \<Rightarrow> s \<noteq> []
      | JArr xs \<Rightarrow> xs \<noteq> []
      | JObj kvs \<Rightarrow> kvs \<noteq> [])"

definition is_list :: "json \<Rightarrow> bool" where
  \<comment> \<open>\<^verbatim>\<open>isinstance(v, list)\<close>\<close>
  "is_list v = (case v of JArr _ \<Rightarrow> True | _ \<Rightarrow> False)"

fun py_in :: "string \<Rightarrow> json \<Rightarrow> error + bool" where
  \<comment> \<open>\<^verbatim>\<open>x in c\<close> for a string \<open>x\<close>: substring of a string, element of a list, key of a
      dict, and a \<^verbatim>\<open>TypeError\<close> on anything else\<close>
  "py_in x (JStr s) = Inr (is_substring x s)"
| "py_in x (JArr xs) = Inr (JStr x \<in> set xs)"
| "py_in x (JObj kvs) = Inr (map_of kvs x \<noteq> None)"
| "py_in x JNull = Inl TypeError"
| "py_in x (JBool b) = Inl TypeError"
| "py_in x (JNum n) = Inl TypeError"

definition dict_of :: "('k \<times> 'v) list \<Rightarrow> ('k \<times> 'v) list" where
  \<comment> \<open>\<^verbatim>\<open>dict(items)\<close>: a later pair overwrites the value of an earlier one with the same key,
      which keeps its place\<close>
  "dict_of items = fold (\<lambda>(k, v) m. AList.update k v m) items []"

function groupby :: "('a \<Rightarrow> 'k) \<Rightarrow> 'a list \<Rightarrow> ('k \<times> 'a list) list" where
  \<comment> \<open>\<^verbatim>\<open>itertools.groupby\<close>: the maximal runs of consecutive elements with equal keys\<close>
  "groupby key [] = []"
| "groupby key (x # xs) =
     (key x, x # takeWhile (\<lambda>y. key y = key x) xs)
       # groupby key (dropWhile (\<lambda>y. key y = key x) xs)"
  by pat_completeness auto
termination
  by (relation "measure (\<lambda>(key, xs). length xs)") (auto simp: length_dropWhile_le less_Suc_eq_le)

section \<open>Type mapping\<close>

definition column_type :: "json \<Rightarrow> error + string" where
  "column_type schema_property =
     (case schema_property of
        JObj kvs \<Rightarrow>
          (case map_of kvs ''type'' of
             None \<Rightarrow> Inl (KeyError ''type'')
           | Some property_type \<Rightarrow>
               (let property_format = map_of kvs ''format'' in
                case py_in ''object'' property_type of
                  Inl e \<Rightarrow> Inl e
                | Inr is_object \<Rightarrow>
                    if is_object \<or> py_in ''array'' property_type = Inr True
                    then Inr ''jsonb''
                    else if property_format = Some (JStr ''date-time'')
                    then Inr ''timestamp without time zone''
                    else if py_in ''number'' property_type = Inr True
                    then Inr ''numeric''
                    else if py_in ''integer'' property_type = Inr True
                            \<and> py_in ''string'' property_type = Inr True
                    then Inr ''character varying''
                    else if py_in ''integer'' property_type = Inr True
                    then Inr ''bigint''
                    else if py_in ''boolean'' property_type = Inr True
                    then Inr ''boolean''
                    else Inr ''character varying''))
      | _ \<Rightarrow> Inl TypeError)"

definition column_clause :: "string \<Rightarrow> json \<Rightarrow> error + string" where
  "column_clause name schema_property =
     (case column_type schema_property of
        Inl e \<Rightarrow> Inl e
      | Inr t \<Rightarrow> Inr (safe_column_name name @ '' '' @ t))"

section \<open>Schema flattening\<close>

definition NULL_TYPE :: json where
  "NULL_TYPE = JObj [(''type'', JStr ''null'')]"

text \<open>
  \<^verbatim>\<open>flatten_schema\<close> assigns to \<^verbatim>\<open>property['type']\<close> in its \<^verbatim>\<open>anyOf\<close> branch, and
  \<^verbatim>\<open>property\<close> is an object of the tree it was given. The model therefore returns, next to
  the result or the error, the tree as the call leaves it. The warning logged for an empty
  definition is not modelled.
\<close>

fun flatten_anyOf ::
  "string \<Rightarrow> string \<Rightarrow> (string \<times> json) list
     \<Rightarrow> (error + (string \<times> json)) \<times> (string \<times> json) list" where
  \<comment> \<open>the \<^verbatim>\<open>elif 'anyOf' in v.keys()\<close> branch, for the entries of \<open>v\<close>;
      \<^verbatim>\<open>list(v.values())[0]\<close> is the value of the first entry\<close>
  "flatten_anyOf k new_key [] = (Inl IndexError, [])"
| "flatten_anyOf k new_key ((k0, properties) # others) =
     (case properties of
        JArr bs \<Rightarrow>
          if NULL_TYPE \<notin> set bs \<or> 2 < length bs
          then (Inl (ValueError (''Unsupported column type anyOf: '' @ k)), (k0, properties) # others)
          else
            (case filter (\<lambda>x. x \<noteq> NULL_TYPE) bs of
               [] \<Rightarrow> (Inl IndexError, (k0, properties) # others)
             | property # _ \<Rightarrow>
                 (case property of
                    JObj pkvs \<Rightarrow>
                      (case map_of pkvs ''type'' of
                         None \<Rightarrow> (Inl (KeyError ''type''), (k0, properties) # others)
                       | Some t \<Rightarrow>
                           (let property' =
                                  (if is_list t then property
                                   else JObj (AList.update ''type'' (JArr [JStr ''null'', t]) pkvs))
                            in (Inr (new_key, property'),
                                (k0, JArr (map (\<lambda>x. if x \<noteq> NULL_TYPE then property' else x) bs))
                                  # others)))
                  | _ \<Rightarrow> (Inl TypeError, (k0, properties) # others)))
      | _ \<Rightarrow> (Inl TypeError, (k0, properties) # others))"

lemma size_map_of:
  "map_of kvs k = Some v \<Longrightarrow> size v < size (JObj kvs)"
  by (induction kvs) (auto split: if_splits)

function flatten_schema ::
    "json \<Rightarrow> string list \<Rightarrow> string \<Rightarrow> (error + (string \<times> json) list) \<times> json"
  and flatten_properties ::
    "(string \<times> json) list \<Rightarrow> string list \<Rightarrow> string
       \<Rightarrow> (error + (string \<times> json) list) \<times> (string \<times> json) list"
  and flatten_property ::
    "string \<Rightarrow> json \<Rightarrow> string list \<Rightarrow> string \<Rightarrow> (error + (string \<times> json) list) \<times> json"
where
  \<comment> \<open>the function: the loop over \<^verbatim>\<open>d['properties'].items()\<close>, then the duplicate check\<close>
  "flatten_schema d parent_key sep =
     (case d of
        JObj dkvs \<Rightarrow>
          (case map_of dkvs ''properties'' of
             None \<Rightarrow> (Inl (KeyError ''properties''), d)
           | Some p \<Rightarrow>
               (case p of
                  JObj props \<Rightarrow>
                    (case flatten_properties props parent_key sep of
                       (r, props') \<Rightarrow>
                         (case r of
                            Inl e \<Rightarrow> Inl e
                          | Inr items \<Rightarrow>
                              (let sorted_items = sort_key fst items in
                               case find (\<lambda>(k, g). 1 < length g) (groupby fst sorted_items) of
                                 Some (k, g) \<Rightarrow>
                                   Inl (ValueError
                                          (''Duplicate column name produced in schema: '' @ k))
                               | None \<Rightarrow> Inr (dict_of sorted_items)),
                          JObj (AList.update ''properties'' (JObj props') dkvs)))
                | _ \<Rightarrow> (Inl AttributeError, d)))
      | _ \<Rightarrow> (Inl TypeError, d))"
  \<comment> \<open>the loop: the items of each property in turn, up to the first exception\<close>
| "flatten_properties [] parent_key sep = (Inr [], [])"
| "flatten_properties ((k, v) # rest) parent_key sep =
     (case flatten_property k v parent_key sep of
        (Inl e, v') \<Rightarrow> (Inl e, (k, v') # rest)
      | (Inr its, v') \<Rightarrow>
          (case flatten_properties rest parent_key sep of
             (Inl e, rest') \<Rightarrow> (Inl e, (k, v') # rest')
           | (Inr its', rest') \<Rightarrow> (Inr (its @ its'), (k, v') # rest')))"
  \<comment> \<open>the loop body: what one property adds to \<^verbatim>\<open>items\<close>, and the property afterwards\<close>
| "flatten_property k v parent_key sep =
     (let new_key = flatten_key k parent_key sep in
      if \<not> truthy v then (Inr [], v)
      else
        (case v of
           JObj vkvs \<Rightarrow>
             (case map_of vkvs ''type'' of
                Some t \<Rightarrow>
                  (case py_in ''object'' t of
                     Inl e \<Rightarrow> (Inl e, v)
                   | Inr is_object \<Rightarrow>
                       if is_object then flatten_schema v (parent_key @ [k]) sep
                       else (Inr [(new_key, v)], v))
              | None \<Rightarrow>
                  if map_of vkvs ''anyOf'' \<noteq> None
                  then (case flatten_anyOf k new_key vkvs of
                          (Inl e, vkvs') \<Rightarrow> (Inl e, JObj vkvs')
                        | (Inr item, vkvs') \<Rightarrow> (Inr [item], JObj vkvs'))
                  else (Inl (ValueError (''Unsupported column type: '' @ k)), v))
         | _ \<Rightarrow> (Inl AttributeError, v)))"
  by pat_completeness auto
termination
proof (relation "measure (\<lambda>x. case x of
                    Inl (d, _, _) \<Rightarrow> 2 * size d
                  | Inr (Inl (props, _, _)) \<Rightarrow> 2 * size (JObj props)
                  | Inr (Inr (k, v, _, _)) \<Rightarrow> 2 * size v + 1)", goal_cases)
  case 1
  show ?case by simp
next
  case (2 d parent_key sep dkvs p props)
  then show ?case using size_map_of [of dkvs "''properties''" p] by simp
next
  case 3
  then show ?case by simp
next
  case 4
  then show ?case by simp
next
  case 5
  then show ?case by simp
qed

declare flatten_schema.simps [simp del]
declare flatten_property.simps [simp del]

text \<open>
  The property paths at which the traversal reaches a leaf (a non-empty definition that is
  not an object to recurse into), in the order of the traversal, each with the identifier
  \<^verbatim>\<open>flatten_key\<close> gives it.
\<close>

function schema_leaves :: "json \<Rightarrow> string list \<Rightarrow> string \<Rightarrow> (string list \<times> string) list"
  and properties_leaves ::
    "(string \<times> json) list \<Rightarrow> string list \<Rightarrow> string \<Rightarrow> (string list \<times> string) list"
  and property_leaves ::
    "string \<Rightarrow> json \<Rightarrow> string list \<Rightarrow> string \<Rightarrow> (string list \<times> string) list"
where
  "schema_leaves d parent_key sep =
     (case d of
        JObj dkvs \<Rightarrow>
          (case map_of dkvs ''properties'' of
             None \<Rightarrow> []
           | Some p \<Rightarrow>
               (case p of JObj props \<Rightarrow> properties_leaves props parent_key sep | _ \<Rightarrow> []))
      | _ \<Rightarrow> [])"
| "properties_leaves [] parent_key sep = []"
| "properties_leaves ((k, v) # rest) parent_key sep =
     property_leaves k v parent_key sep @ properties_leaves rest parent_key sep"
| "property_leaves k v parent_key sep =
     (if \<not> truthy v then []
      else
        (case v of
           JObj vkvs \<Rightarrow>
             (case map_of vkvs ''type'' of
                Some t \<Rightarrow>
                  if py_in ''object'' t = Inr True then schema_leaves v (parent_key @ [k]) sep
                  else [(parent_key @ [k], flatten_key k parent_key sep)]
              | None \<Rightarrow> [(parent_key @ [k], flatten_key k parent_key sep)])
         | _ \<Rightarrow> []))"
  by pat_completeness auto
termination
proof (relation "measure (\<lambda>x. case x of
                    Inl (d, _, _) \<Rightarrow> 2 * size d
                  | Inr (Inl (props, _, _)) \<Rightarrow> 2 * size (JObj props)
                  | Inr (Inr (k, v, _, _)) \<Rightarrow> 2 * size v + 1)", goal_cases)
  case 1
  show ?case by simp
next
  case (2 d parent_key sep dkvs p props)
  then show ?case using size_map_of [of dkvs "''properties''" p] by simp
next
  case 3
  then show ?case by simp
next
  case 4
  then show ?case by simp
next
  case 5
  then show ?case by simp
qed

declare schema_leaves.simps [simp del]
declare property_leaves.simps [simp del]

fun has_anyOf :: "json \<Rightarrow> bool" where
  \<comment> \<open>some object of the tree has the key \<^verbatim>\<open>anyOf\<close>\<close>
  "has_anyOf (JObj kvs) = (\<exists>(k, v) \<in> set kvs. k = ''anyOf'' \<or> has_anyOf v)"
| "has_anyOf (JArr xs) = (\<exists>x \<in> set xs. has_anyOf x)"
| "has_anyOf _ = False"


section \<open>Record flattening\<close>

text \<open>
  \<^verbatim>\<open>collections.MutableMapping\<close> is taken as it is on the interpreters the program was
  written for (Python 3.9 and earlier), where a \<^verbatim>\<open>dict\<close> is an instance of it.
  \<^verbatim>\<open>json.dumps\<close> is a parameter. The recursive call of \<^verbatim>\<open>flatten_record\<close> is only made on
  a mapping, where it returns \<^verbatim>\<open>dict(items)\<close> of the nested loop; \<open>flatten_record_items\<close> is
  the list \<^verbatim>\<open>items\<close> at the end of the loop.
\<close>

function flatten_record_items ::
  "(json \<Rightarrow> string) \<Rightarrow> (string \<times> json) list \<Rightarrow> string list \<Rightarrow> string
     \<Rightarrow> (string \<times> json) list" where
  "flatten_record_items dumps [] parent_key sep = []"
| "flatten_record_items dumps ((k, v) # rest) parent_key sep =
     (let new_key = flatten_key k parent_key sep in
      (case v of
         JObj vkvs \<Rightarrow> dict_of (flatten_record_items dumps vkvs (parent_key @ [k]) sep)
       | JArr xs \<Rightarrow> [(new_key, JStr (dumps v))]
       | _ \<Rightarrow> [(new_key, v)])
      @ flatten_record_items dumps rest parent_key sep)"
  by pat_completeness auto
termination
  by (relation "measure (\<lambda>(dumps, kvs, parent_key, sep). size (JObj kvs))") auto

definition flatten_record ::
  "(json \<Rightarrow> string) \<Rightarrow> json \<Rightarrow> string list \<Rightarrow> string \<Rightarrow> error + (string \<times> json) list" where
  "flatten_record dumps d parent_key sep =
     (case d of
        JObj kvs \<Rightarrow> Inr (dict_of (flatten_record_items dumps kvs parent_key sep))
      | _ \<Rightarrow> Inl AttributeError)"

text \<open>
  The leaves of a record in the order the traversal processes them, each with its
  identifier and the value \<^verbatim>\<open>flatten_record\<close> stores for it.
\<close>

function record_leaves ::
  "(json \<Rightarrow> string) \<Rightarrow> (string \<times> json) list \<Rightarrow> string list \<Rightarrow> string
     \<Rightarrow> (string \<times> json) list" where
  "record_leaves dumps [] parent_key sep = []"
| "record_leaves dumps ((k, v) # rest) parent_key sep =
     (case v of
        JObj vkvs \<Rightarrow> record_leaves dumps vkvs (parent_key @ [k]) sep
      | JArr xs \<Rightarrow> [(flatten_key k parent_key sep, JStr (dumps v))]
      | _ \<Rightarrow> [(flatten_key k parent_key sep, v)])
     @ record_leaves dumps rest parent_key sep"
  by pat_completeness auto
termination
  by (relation "measure (\<lambda>(dumps, kvs, parent_key, sep). size (JObj kvs))") auto

section \<open>The synchronizer\<close>

text \<open>
  The fields of \<^verbatim>\<open>DbSync\<close> that the statements depend on: the schema name of the connection
  configuration, the stream name and key properties of the schema message, the flattened
  schema computed by the constructor, and the count of rejected files.
\<close>

record db_sync =
  schema_name :: string
  stream :: string
  key_properties :: "string list"
  flatten_schema_attr :: "(string \<times> json) list"
  rejected_count :: nat

definition db_sync_init ::
  "string \<Rightarrow> string \<Rightarrow> string list \<Rightarrow> json \<Rightarrow> error + db_sync" where
  \<comment> \<open>\<^verbatim>\<open>DbSync.__init__\<close>\<close>
  "db_sync_init schema stream_name keys schema_tree =
     (case fst (flatten_schema schema_tree [] ''__'') of
        Inl e \<Rightarrow> Inl e
      | Inr m \<Rightarrow>
          Inr \<lparr>schema_name = schema, stream = stream_name, key_properties = keys,
               flatten_schema_attr = m, rejected_count = 0\<rparr>)"

fun collect :: "('a \<Rightarrow> error + 'b) \<Rightarrow> 'a list \<Rightarrow> error + 'b list" where
  \<comment> \<open>a list comprehension whose element expression may raise\<close>
  "collect f [] = Inr []"
| "collect f (x # xs) =
     (case f x of
        Inl e \<Rightarrow> Inl e
      | Inr y \<Rightarrow> (case collect f xs of Inl e \<Rightarrow> Inl e | Inr ys \<Rightarrow> Inr (y # ys)))"

definition primary_column_names :: "string list \<Rightarrow> string list" where
  "primary_column_names keys = map (\<lambda>p. safe_column_name (inflect_column_name p)) keys"

definition table_name :: "db_sync \<Rightarrow> string \<Rightarrow> bool \<Rightarrow> string" where
  "table_name self name is_temporary =
     (if is_temporary then name @ ''_temp'' else schema_name self @ ''.'' @ name)"

definition column_names :: "db_sync \<Rightarrow> string list" where
  "column_names self = map (\<lambda>(name, schema). safe_column_name name) (flatten_schema_attr self)"

definition primary_key_condition :: "db_sync \<Rightarrow> string \<Rightarrow> string" where
  "primary_key_condition self right_table =
     join '' AND ''
       (map (\<lambda>c. ''s.'' @ c @ '' = '' @ right_table @ ''.'' @ c)
            (primary_column_names (key_properties self)))"

definition primary_key_null_condition :: "db_sync \<Rightarrow> string \<Rightarrow> string" where
  "primary_key_null_condition self right_table =
     join '' AND ''
       (map (\<lambda>c. right_table @ ''.'' @ c @ '' is null'')
            (primary_column_names (key_properties self)))"

definition insert_from_temp_table :: "db_sync \<Rightarrow> string" where
  "insert_from_temp_table self =
     (let columns = column_names self;
          table = table_name self (stream self) False;
          temp_table = table_name self (stream self) True
      in if length (key_properties self) = 0
         then ''INSERT INTO '' @ table @ '' ('' @ join '', '' columns @ '')\<newline>''
              @ ''                    (SELECT s.* FROM '' @ temp_table @ '' s)\<newline>''
              @ ''                    ''
         else ''INSERT INTO '' @ table @ '' ('' @ join '', '' columns @ '')\<newline>''
              @ ''        (SELECT s.* FROM '' @ temp_table @ '' s LEFT OUTER JOIN '' @ table
              @ '' t ON '' @ primary_key_condition self ''t''
              @ '' WHERE '' @ primary_key_null_condition self ''t'' @ '')\<newline>''
              @ ''        '')"

definition update_from_temp_table :: "db_sync \<Rightarrow> string" where
  "update_from_temp_table self =
     (let columns = column_names self;
          table = table_name self (stream self) False;
          temp_table = table_name self (stream self) True
      in ''UPDATE '' @ table @ '' SET '' @ join '', '' (map (\<lambda>c. c @ ''=s.'' @ c) columns)
         @ '' FROM '' @ temp_table @ '' s\<newline>''
         @ ''        WHERE '' @ primary_key_condition self table @ ''\<newline>''
         @ ''        '')"

definition drop_temp_table :: "db_sync \<Rightarrow> string" where
  "drop_temp_table self = ''DROP TABLE '' @ table_name self (stream self) True"

definition create_table_query :: "db_sync \<Rightarrow> bool \<Rightarrow> error + string" where
  "create_table_query self is_temporary =
     (case collect (\<lambda>(name, schema). column_clause name schema) (flatten_schema_attr self) of
        Inl e \<Rightarrow> Inl e
      | Inr columns \<Rightarrow>
          (let primary_key =
                 (if length (key_properties self) \<noteq> 0
                  then [''PRIMARY KEY (''
                          @ join '', '' (primary_column_names (key_properties self)) @ '')'']
                  else [])
           in Inr (''CREATE '' @ (if is_temporary then ''TEMP '' else []) @ ''TABLE ''
                     @ table_name self (stream self) is_temporary
                     @ '' ('' @ join '', '' (columns @ primary_key) @ '')'')))"

definition copy_sql :: "db_sync \<Rightarrow> string" where
  \<comment> \<open>the statement \<^verbatim>\<open>load_csv\<close> hands to \<^verbatim>\<open>copy_expert\<close>\<close>
  "copy_sql self =
     ''COPY '' @ table_name self (stream self) True @ '' ('' @ join '', '' (column_names self)
       @ '') FROM STDIN WITH (FORMAT CSV, ESCAPE '' @ [CHR 0x27, CHR 0x5C, CHR 0x27] @ '')''"

text \<open>
  The database is a parameter: its reply to a statement is \<open>None\<close> when the statement
  succeeds and the exception it raises otherwise. A run of statements stops at the first
  exception; the trace lists the statements issued, the failing one included.
\<close>

fun execute_all :: "(string \<Rightarrow> error option) \<Rightarrow> string list \<Rightarrow> string list \<times> error option" where
  "execute_all db [] = ([], None)"
| "execute_all db (q # qs) =
     (case db q of
        Some e \<Rightarrow> ([q], Some e)
      | None \<Rightarrow> (case execute_all db qs of (trace, r) \<Rightarrow> (q # trace, r)))"

definition reject_file :: "db_sync \<Rightarrow> db_sync" where
  \<comment> \<open>the copy of the file into the rejected directory is not modelled\<close>
  "reject_file self = self\<lparr>rejected_count := rejected_count self + 1\<rparr>"

definition load_csv ::
  "(string \<Rightarrow> error option) \<Rightarrow> db_sync \<Rightarrow> string list \<times> error option \<times> db_sync" where
  \<comment> \<open>the statements issued, the exception that leaves the method if any, and the object\<close>
  "load_csv db self =
     (case create_table_query self True of
        Inl e \<Rightarrow> ([], Some e, self)
      | Inr create \<Rightarrow>
          (case execute_all db
                  ([create, copy_sql self]
                   @ (if 0 < length (key_properties self) then [update_from_temp_table self]
                      else [])
                   @ [insert_from_temp_table self, drop_temp_table self]) of
             (trace, None) \<Rightarrow> (trace, None, self)
           | (trace, Some e) \<Rightarrow>
               if e = DataError then (trace, None, reject_file self) else (trace, Some e, self)))"

definition add_column :: "db_sync \<Rightarrow> string \<Rightarrow> string" where
  \<comment> \<open>the statement of \<^verbatim>\<open>add_column(column, stream)\<close>\<close>
  "add_column self column =
     ''ALTER TABLE '' @ table_name self (stream self) False @ '' ADD COLUMN '' @ column"

definition drop_column :: "db_sync \<Rightarrow> string \<Rightarrow> string" where
  "drop_column self column_name =
     ''ALTER TABLE '' @ table_name self (stream self) False @ '' DROP COLUMN '' @ column_name"

definition columns_to_add :: "db_sync \<Rightarrow> (string \<times> string) list \<Rightarrow> error + string list" where
  \<comment> \<open>\<open>columns\<close> are the rows \<^verbatim>\<open>get_table_columns\<close> returned: column name and data type\<close>
  "columns_to_add self columns =
     (let columns_dict = dict_of (map (\<lambda>(n, t). (lower n, (n, t))) columns)
      in collect (\<lambda>(name, properties_schema). column_clause name properties_schema)
           (filter (\<lambda>(name, properties_schema). map_of columns_dict (lower name) = None)
                   (flatten_schema_attr self)))"

fun columns_to_replace ::
  "(string \<times> string \<times> string) list \<Rightarrow> (string \<times> json) list \<Rightarrow> error + (string \<times> string) list" where
  \<comment> \<open>the second comprehension: the condition calls \<^verbatim>\<open>column_type\<close> for a column that the
      catalog has, and may raise there\<close>
  "columns_to_replace columns_dict [] = Inr []"
| "columns_to_replace columns_dict ((name, properties_schema) # rest) =
     (case map_of columns_dict (lower name) of
        None \<Rightarrow> columns_to_replace columns_dict rest
      | Some (column_name, data_type) \<Rightarrow>
          (case column_type properties_schema of
             Inl e \<Rightarrow> Inl e
           | Inr t \<Rightarrow>
               if lower data_type \<noteq> lower t
               then (case columns_to_replace columns_dict rest of
                       Inl e \<Rightarrow> Inl e
                     | Inr others \<Rightarrow>
                         Inr ((safe_column_name name, safe_column_name name @ '' '' @ t) # others))
               else columns_to_replace columns_dict rest))"

definition update_columns ::
  "(string \<Rightarrow> error option) \<Rightarrow> db_sync \<Rightarrow> (string \<times> string) list
     \<Rightarrow> string list \<times> error option" where
  \<comment> \<open>the statements issued and the exception that leaves the method, if any\<close>
  "update_columns db self columns =
     (let columns_dict = dict_of (map (\<lambda>(n, t). (lower n, (n, t))) columns) in
      case columns_to_add self columns of
        Inl e \<Rightarrow> ([], Some e)
      | Inr to_add \<Rightarrow>
          (case execute_all db (map (add_column self) to_add) of
             (trace, Some e) \<Rightarrow> (trace, Some e)
           | (trace, None) \<Rightarrow>
               (case columns_to_replace columns_dict (flatten_schema_attr self) of
                  Inl e \<Rightarrow> (trace, Some e)
                | Inr to_replace \<Rightarrow>
                    (case execute_all db
                            (concat (map (\<lambda>(column_name, column).
                                            [drop_column self column_name, add_column self column])
                                         to_replace)) of
                       (trace', r) \<Rightarrow> (trace @ trace', r)))))"

section \<open>Predicates used in the statements\<close>

definition is_container :: "json \<Rightarrow> bool" where
  \<comment> \<open>a string, a list or a mapping: the values \<^verbatim>\<open>in\<close> accepts on its right\<close>
  "is_container t = (case t of JStr _ \<Rightarrow> True | JArr _ \<Rightarrow> True | JObj _ \<Rightarrow> True | _ \<Rightarrow> False)"

definition typed :: "json \<Rightarrow> bool" where
  \<comment> \<open>a descriptor with a \<^verbatim>\<open>type\<close> field that is a string, a list or a mapping\<close>
  "typed ps =
     (case ps of
        JObj kvs \<Rightarrow> (case map_of kvs ''type'' of Some t \<Rightarrow> is_container t | None \<Rightarrow> False)
      | _ \<Rightarrow> False)"

definition storage_types :: "string list" where
  "storage_types =
     [''jsonb'', ''timestamp without time zone'', ''numeric'', ''character varying'',
      ''bigint'', ''boolean'']"

definition load_statements :: "db_sync \<Rightarrow> string \<Rightarrow> string list" where
  \<comment> \<open>the statements of one batch load in order, \<open>create\<close> being the text of the
      \<^verbatim>\<open>CREATE TEMP TABLE\<close> statement\<close>
  "load_statements self create =
     (if key_properties self = []
      then [create, copy_sql self, insert_from_temp_table self, drop_temp_table self]
      else [create, copy_sql self, update_from_temp_table self, insert_from_temp_table self,
            drop_temp_table self])"

definition catalog_type :: "(string \<times> string) list \<Rightarrow> string \<Rightarrow> string option" where
  \<comment> \<open>the data type the catalog rows record for a column, names compared in lowercase;
      of several rows for one name the last counts\<close>
  "catalog_type columns name = map_of (rev (map (\<lambda>(n, t). (lower n, t)) columns)) (lower name)"

text \<open>
  The schemas all of whose visited nodes have a shape the traversal supports: every object
  it enters has a mapping under \<^verbatim>\<open>properties\<close>, and every non-empty property is a mapping
  with a \<^verbatim>\<open>type\<close> that \<^verbatim>\<open>in\<close> accepts, or a nullable union that is accepted.
\<close>

definition anyOf_ok :: "(string \<times> json) list \<Rightarrow> bool" where
  \<comment> \<open>the entries of a nullable union that the \<^verbatim>\<open>anyOf\<close> branch accepts: the first value is
      a list of at most two branches with the null marker, and its first other branch is an
      object with a \<^verbatim>\<open>type\<close> field\<close>
  "anyOf_ok vkvs =
     (case vkvs of
        (k0, JArr bs) # _ \<Rightarrow>
          NULL_TYPE \<in> set bs \<and> length bs \<le> 2
          \<and> (case filter (\<lambda>x. x \<noteq> NULL_TYPE) bs of
                JObj pkvs # _ \<Rightarrow> map_of pkvs ''type'' \<noteq> None
              | _ \<Rightarrow> False)
      | _ \<Rightarrow> False)"

function schema_ok :: "json \<Rightarrow> bool"
  and properties_ok :: "(string \<times> json) list \<Rightarrow> bool"
  and property_ok :: "json \<Rightarrow> bool"
where
  "schema_ok d =
     (case d of
        JObj dkvs \<Rightarrow>
          (case map_of dkvs ''properties'' of
             None \<Rightarrow> False
           | Some p \<Rightarrow> (case p of JObj props \<Rightarrow> properties_ok props | _ \<Rightarrow> False))
      | _ \<Rightarrow> False)"
| "properties_ok [] = True"
| "properties_ok ((k, v) # rest) = (property_ok v \<and> properties_ok rest)"
| "property_ok v =
     (if \<not> truthy v then True
      else
        (case v of
           JObj vkvs \<Rightarrow>
             (case map_of vkvs ''type'' of
                Some t \<Rightarrow>
                  (case py_in ''object'' t of
                     Inl e \<Rightarrow> False
                   | Inr is_object \<Rightarrow> if is_object then schema_ok v else True)
              | None \<Rightarrow> map_of vkvs ''anyOf'' \<noteq> None \<and> anyOf_ok vkvs)
         | _ \<Rightarrow> False))"
  by pat_completeness auto
termination
proof (relation "measure (\<lambda>x. case x of
                    Inl d \<Rightarrow> 2 * size d
                  | Inr (Inl props) \<Rightarrow> 2 * size (JObj props)
                  | Inr (Inr v) \<Rightarrow> 2 * size v + 1)", goal_cases)
  case 1
  show ?case by simp
next
  case (2 d dkvs p props)
  then show ?case using size_map_of [of dkvs "''properties''" p] by simp
next
  case 3
  then show ?case by simp
next
  case 4
  then show ?case by simp
next
  case 5
  then show ?case by simp
qed

declare schema_ok.simps [simp del]
declare property_ok.simps [simp del]

definition is_duplicate_error :: "error \<Rightarrow> bool" where
  \<comment> \<open>the exception of the duplicate check at the end of \<^verbatim>\<open>flatten_schema\<close>\<close>
  "is_duplicate_error e =
     (\<exists>k. e = ValueError (''Duplicate column name produced in schema: '' @ k))"

definition settled :: "error + 'a \<Rightarrow> (string list \<times> string) list \<Rightarrow> bool" where
  \<comment> \<open>an outcome that is a result, or the duplicate exception with leaves that share an
      identifier\<close>
  "settled r leaves =
     (case r of Inr x \<Rightarrow> True
      | Inl e \<Rightarrow> is_duplicate_error e \<and> \<not> distinct (map snd leaves))"

section \<open>Identifier length\<close>

lemma reduce_loop_shape:
  "i \<le> length ks \<Longrightarrow>
   length (join sep (reduce_loop sep ks i)) < 63 \<or>
   reduce_loop sep ks i = take i ks @ map reduce_segment (drop i ks)"
proof (induction sep ks i rule: reduce_loop.induct)
  case (1 sep ks i)
  show ?case
  proof (cases "63 \<le> length (join sep ks) \<and> i < length ks")
    case True
    let ?ks = "ks[i := reduce_segment (ks ! i)]"
    from True have le: "Suc i \<le> length ?ks" by simp
    have step: "reduce_loop sep ks i = reduce_loop sep ?ks (Suc i)"
      using True by (subst reduce_loop.simps) simp
    have shape: "take (Suc i) ?ks @ map reduce_segment (drop (Suc i) ?ks)
                 = take i ks @ map reduce_segment (drop i ks)"
      using True by (simp add: take_Suc_conv_app_nth Cons_nth_drop_Suc [symmetric])
    from "1.IH" [OF True le] show ?thesis
      unfolding step shape .
  next
    case False
    then have stop: "reduce_loop sep ks i = ks"
      by (subst reduce_loop.simps) auto
    show ?thesis
    proof (cases "63 \<le> length (join sep ks)")
      case True
      with False "1.prems" have "i = length ks" by simp
      with stop show ?thesis by simp
    next
      case False
      then show ?thesis by (simp add: stop)
    qed
  qed
qed

text \<open>
  C1, as the code has it. The loop of \<^verbatim>\<open>flatten_key\<close> shortens one segment per round and
  stops when the joined identifier is shorter than 63 characters or when every segment has
  been shortened once. So the identifier is shorter than 63 characters, or it is the join
  of the shortened segments, whatever length that has.
\<close>

theorem flatten_key_short_or_all_reduced:
  "length (flatten_key k parent_key sep) < 63 \<or>
   flatten_key k parent_key sep =
     join sep (map (\<lambda>n. reduce_segment (inflect_column_name n)) (parent_key @ [k]))"
  using reduce_loop_shape [of 0 "map inflect_column_name (parent_key @ [k])" sep]
  by (auto simp: flatten_key_def comp_def)

theorem flatten_key_short_or_all_reduced_witness:
  "length (flatten_key ''userId'' [''Account''] ''__'') < 63 \<or>
   flatten_key ''userId'' [''Account''] ''__'' =
     join ''__'' (map (\<lambda>n. reduce_segment (inflect_column_name n)) ([''Account''] @ [''userId'']))"
  using flatten_key_short_or_all_reduced [of "''userId''" "[''Account'']" "''__''"] .

text \<open>
  C1 as stated fails: a single segment of 64 digits has no small letter to drop, so
  shortening returns it unchanged and the identifier keeps its 64 characters.
\<close>

theorem flatten_key_length_counterexample:
  "\<not> length (flatten_key (replicate 64 (CHR ''1'')) [] ''__'') \<le> 63"
  by code_simp

section \<open>Inflection\<close>

subsection \<open>Characters\<close>

lemma not_upper_to_lower: "\<not> is_upper (to_lower c)"
  by (simp add: is_upper_def to_lower_def)

lemma to_lower_hyphen: "to_lower c = CHR ''-'' \<longleftrightarrow> c = CHR ''-''"
proof
  assume h: "to_lower c = CHR ''-''"
  show "c = CHR ''-''"
  proof (cases "is_upper c")
    case True
    then have "(of_char (to_lower c) :: nat) = of_char c + 32"
      by (simp add: to_lower_def is_upper_def)
    with h True show ?thesis by (simp add: is_upper_def)
  next
    case False
    with h show ?thesis by (simp add: to_lower_def)
  qed
next
  assume "c = CHR ''-''"
  then show "to_lower c = CHR ''-''" by (simp add: to_lower_def is_upper_def)
qed

lemma to_upper_hyphen: "to_upper c = CHR ''-'' \<longleftrightarrow> c = CHR ''-''"
proof
  assume h: "to_upper c = CHR ''-''"
  show "c = CHR ''-''"
  proof (cases "is_lower c")
    case True
    then have r: "97 \<le> (of_char c :: nat)" "(of_char c :: nat) \<le> 122"
      by (simp_all add: is_lower_def)
    then have "(of_char c :: nat) - 32 < 256" by linarith
    with True have "(of_char (to_upper c) :: nat) = of_char c - 32"
      by (simp add: to_upper_def)
    with h have "(of_char c :: nat) - 32 = 45" by simp
    with r have False by linarith
    then show ?thesis ..
  next
    case False
    with h show ?thesis by (simp add: to_upper_def)
  qed
next
  assume "c = CHR ''-''"
  then show "to_upper c = CHR ''-''" by (simp add: to_upper_def is_lower_def)
qed

lemma to_lower_id: "\<not> is_upper c \<Longrightarrow> to_lower c = c"
  by (simp add: to_lower_def)

lemma lower_id: "\<forall>c \<in> set s. \<not> is_upper c \<Longrightarrow> lower s = s"
  by (induction s) (simp_all add: lower_def to_lower_id)

lemma replace_char_id: "a \<notin> set s \<Longrightarrow> replace_char a b s = s"
  by (induction s) (auto simp: replace_char_def)

subsection \<open>Substitution\<close>

lemma re_sub_id:
  assumes none: "\<And>t. P t \<Longrightarrow> m t = None"
    and tail: "\<And>c cs. P (c # cs) \<Longrightarrow> P cs"
  shows "P s \<Longrightarrow> re_sub m s = s"
proof (induction s)
  case Nil
  show ?case by simp
next
  case (Cons c cs)
  from Cons.prems have "m (c # cs) = None" by (rule none)
  moreover from Cons.prems have "P cs" by (rule tail)
  ultimately show ?case using Cons.IH by simp
qed

lemma re_sub_all:
  assumes repl: "\<And>t r n. \<forall>c \<in> set t. P c \<Longrightarrow> m t = Some (r, n) \<Longrightarrow> \<forall>c \<in> set r. P c"
  shows "\<forall>c \<in> set s. P c \<Longrightarrow> \<forall>c \<in> set (re_sub m s). P c"
proof (induction "length s" arbitrary: s rule: less_induct)
  case less
  show ?case
  proof (cases s)
    case Nil
    then show ?thesis by simp
  next
    case (Cons c cs)
    have tl: "\<forall>c \<in> set (re_sub m cs). P c"
      using less.hyps [of cs] less.prems Cons by simp
    have hd: "P c" using less.prems Cons by simp
    show ?thesis
    proof (cases "m (c # cs)")
      case None
      with tl hd Cons show ?thesis by simp
    next
      case (Some a)
      obtain r n where a: "a = (r, n)" by (cases a)
      show ?thesis
      proof (cases "n = 0")
        case True
        with tl hd Cons Some a show ?thesis by simp
      next
        case False
        then have "length (drop n (c # cs)) < length s" using Cons by simp
        moreover have "\<forall>x \<in> set (drop n (c # cs)). P x"
          using less.prems Cons set_drop_subset [of n "c # cs"] by blast
        ultimately have "\<forall>x \<in> set (re_sub m (drop n (c # cs))). P x"
          by (rule less.hyps)
        moreover have "\<forall>x \<in> set r. P x"
          using repl [of "c # cs" r n] less.prems Cons Some a by simp
        ultimately have "\<forall>x \<in> set (r @ re_sub m (drop n (c # cs))). P x"
          by auto
        then show ?thesis using Some a False Cons by simp
      qed
    qed
  qed
qed

subsection \<open>The matchers\<close>

lemma m_upper_sep_pair_no_upper: "\<forall>c \<in> set t. \<not> is_upper c \<Longrightarrow> m_upper_sep_pair t = None"
  by (cases t) (auto simp: m_upper_sep_pair_def split: list.splits)

lemma m_lower_sep_upper_no_upper: "\<forall>c \<in> set t. \<not> is_upper c \<Longrightarrow> m_lower_sep_upper t = None"
  by (auto simp: m_lower_sep_upper_def split: list.splits)

lemma m_upper_pair_no_upper: "\<forall>c \<in> set t. \<not> is_upper c \<Longrightarrow> m_upper_pair t = None"
  by (cases t) (auto simp: m_upper_pair_def split: list.splits)

lemma m_lower_upper_no_upper: "\<forall>c \<in> set t. \<not> is_upper c \<Longrightarrow> m_lower_upper t = None"
  by (auto simp: m_lower_upper_def split: list.splits)

lemma re_sub_no_upper:
  assumes "\<And>t. \<forall>c \<in> set t. \<not> is_upper c \<Longrightarrow> m t = None"
    and "\<forall>c \<in> set s. \<not> is_upper c"
  shows "re_sub m s = s"
  using assms by (intro re_sub_id [where P = "\<lambda>t. \<forall>c \<in> set t. \<not> is_upper c"]) auto

lemma lowered_iff: "lowered s \<longleftrightarrow> (\<forall>c \<in> set s. \<not> is_upper c \<and> c \<noteq> CHR ''-'')"
  by (simp add: lowered_def list_all_iff)

lemma inflect_column_name_lowered_id:
  assumes "lowered s"
  shows "inflect_column_name s = s"
proof -
  from assms have nu: "\<forall>c \<in> set s. \<not> is_upper c" and nh: "CHR ''-'' \<notin> set s"
    by (auto simp: lowered_iff)
  have "re_sub m_upper_sep_pair s = s"
    using m_upper_sep_pair_no_upper nu by (rule re_sub_no_upper)
  moreover have "re_sub m_lower_sep_upper s = s"
    using m_lower_sep_upper_no_upper nu by (rule re_sub_no_upper)
  moreover have "re_sub m_upper_pair s = s"
    using m_upper_pair_no_upper nu by (rule re_sub_no_upper)
  moreover have "re_sub m_lower_upper s = s"
    using m_lower_upper_no_upper nu by (rule re_sub_no_upper)
  ultimately show ?thesis
    using nu nh by (simp add: inflect_column_name_def underscore_def lower_id replace_char_id)
qed

lemma replace_char_free: "a \<noteq> b \<Longrightarrow> a \<notin> set (replace_char a b s)"
  by (induction s) (auto simp: replace_char_def)

lemma hyphen_not_sep: "CHR ''-'' \<noteq> CHR ''_''"
  by simp

lemma replace_hyphen_free: "CHR ''-'' \<notin> set (replace_char (CHR ''-'') (CHR ''_'') s)"
  using hyphen_not_sep by (rule replace_char_free)

lemma lowered_lower: "CHR ''-'' \<notin> set s \<Longrightarrow> lowered (lower s)"
proof -
  assume a: "CHR ''-'' \<notin> set s"
  have "\<forall>c \<in> set s. c \<noteq> CHR ''-''"
  proof
    fix c assume "c \<in> set s"
    with a show "c \<noteq> CHR ''-''" by blast
  qed
  then show ?thesis
    by (induction s) (simp_all add: lowered_def lower_def not_upper_to_lower to_lower_hyphen)
qed

lemma lowered_underscore: "lowered (underscore w)"
  unfolding underscore_def using replace_hyphen_free by (rule lowered_lower)

lemma lowered_inflect_column_name: "lowered (inflect_column_name n)"
  by (simp add: inflect_column_name_def lowered_underscore)

lemma m_sep_any_shape:
  assumes "m_sep_any t = Some (r, n)"
  shows "\<exists>b \<in> set t. r = [to_upper b]"
proof (cases t)
  case Nil
  with assms show ?thesis by (simp add: m_sep_any_def)
next
  case (Cons u t')
  show ?thesis
  proof (cases t')
    case Nil
    with assms Cons show ?thesis by (simp add: m_sep_any_def)
  next
    case (Cons b t'')
    with assms \<open>t = u # t'\<close> have "r = [to_upper b]"
      by (simp add: m_sep_any_def split: if_splits)
    with Cons \<open>t = u # t'\<close> show ?thesis by simp
  qed
qed

lemma to_upper_not_hyphen: "c \<noteq> CHR ''-'' \<Longrightarrow> to_upper c \<noteq> CHR ''-''"
  by (simp add: to_upper_hyphen)

lemma to_lower_not_hyphen: "c \<noteq> CHR ''-'' \<Longrightarrow> to_lower c \<noteq> CHR ''-''"
  by (simp add: to_lower_hyphen)

lemma camelize_hyphen_free:
  assumes "\<forall>c \<in> set s. c \<noteq> CHR ''-''"
  shows "\<forall>c \<in> set (camelize s). c \<noteq> CHR ''-''"
proof (cases s)
  case Nil
  then show ?thesis by simp
next
  case (Cons c cs)
  have "\<forall>x \<in> set (re_sub m_sep_any cs). x \<noteq> CHR ''-''"
  proof (rule re_sub_all)
    fix t r n
    assume t: "\<forall>c \<in> set t. c \<noteq> CHR ''-''" and m: "m_sep_any t = Some (r, n)"
    from m_sep_any_shape [OF m] obtain b where "b \<in> set t" "r = [to_upper b]" by blast
    with t show "\<forall>c \<in> set r. c \<noteq> CHR ''-''" by (simp add: to_upper_not_hyphen)
  next
    show "\<forall>c \<in> set cs. c \<noteq> CHR ''-''" using assms Cons by simp
  qed
  moreover have "c \<noteq> CHR ''-''" using assms Cons by simp
  then have "(if c \<noteq> CHR 0x0A then to_upper c else c) \<noteq> CHR ''-''"
    using to_upper_not_hyphen by (cases "c \<noteq> CHR 0x0A") (simp_all only: if_True if_False not_False_eq_True)
  ultimately show ?thesis using Cons by simp
qed

lemma lowered_reduce_segment:
  assumes "lowered seg"
  shows "lowered (reduce_segment seg)"
proof -
  from assms have h: "\<forall>c \<in> set seg. c \<noteq> CHR ''-''" by (simp add: lowered_iff)
  then have "\<forall>c \<in> set (camelize seg). c \<noteq> CHR ''-''" by (rule camelize_hyphen_free)
  then have a: "CHR ''-'' \<notin> set (filter (\<lambda>c. \<not> is_lower c) (camelize seg))" by auto
  have b: "CHR ''-'' \<notin> set (take 3 seg)" using h set_take_subset [of 3 seg] by blast
  let ?r = "filter (\<lambda>c. \<not> is_lower c) (camelize seg)"
  have "CHR ''-'' \<notin> set (if 1 < length ?r then ?r else take 3 seg)"
    using a b by (cases "1 < length ?r") (simp_all only: if_True if_False not_False_eq_True)
  then show ?thesis
    unfolding reduce_segment_def Let_def by (rule lowered_lower)
qed

lemma lowered_join:
  "lowered sep \<Longrightarrow> \<forall>x \<in> set xs. lowered x \<Longrightarrow> lowered (join sep xs)"
  by (induction sep xs rule: join.induct) (simp_all add: lowered_def)

lemma lowered_reduce_loop:
  "\<forall>x \<in> set ks. lowered x \<Longrightarrow> \<forall>x \<in> set (reduce_loop sep ks i). lowered x"
proof (induction sep ks i rule: reduce_loop.induct)
  case (1 sep ks i)
  show ?case
  proof (cases "63 \<le> length (join sep ks) \<and> i < length ks")
    case True
    have "\<forall>x \<in> set (ks[i := reduce_segment (ks ! i)]). lowered x"
    proof
      fix x assume "x \<in> set (ks[i := reduce_segment (ks ! i)])"
      then have "x \<in> insert (reduce_segment (ks ! i)) (set ks)"
        using set_update_subset_insert by fastforce
      then show "lowered x" using "1.prems" True lowered_reduce_segment by auto
    qed
    from "1.IH" [OF True this] show ?thesis
      using True by (subst reduce_loop.simps) simp
  next
    case False
    then show ?thesis using "1.prems" by (subst reduce_loop.simps) auto
  qed
qed

lemma lowered_flatten_key: "lowered sep \<Longrightarrow> lowered (flatten_key k parent_key sep)"
  unfolding flatten_key_def
  by (intro lowered_join lowered_reduce_loop) (auto simp: lowered_inflect_column_name)

text \<open>
  C8, as the code has it. An identifier shorter than 63 characters, built with a separator
  that has no capital and no hyphen (the program uses \<^verbatim>\<open>__\<close>), is a fixed point:
  flattening it again, as a path of one segment, returns it unchanged.
\<close>

theorem flatten_key_idempotent_when_short:
  assumes "lowered sep" and "length (flatten_key k parent_key sep) < 63"
  shows "flatten_key (flatten_key k parent_key sep) [] sep = flatten_key k parent_key sep"
proof -
  let ?out = "flatten_key k parent_key sep"
  have "inflect_column_name ?out = ?out"
    using assms(1) by (intro inflect_column_name_lowered_id lowered_flatten_key)
  moreover have "reduce_loop sep [?out] 0 = [?out]"
    using assms(2) by (subst reduce_loop.simps) simp
  ultimately show ?thesis by (simp add: flatten_key_def [of ?out])
qed

theorem flatten_key_idempotent_when_short_witness:
  "lowered ''__'' \<and> length (flatten_key ''userId'' [''Account''] ''__'') < 63 \<and>
   flatten_key (flatten_key ''userId'' [''Account''] ''__'') [] ''__''
     = flatten_key ''userId'' [''Account''] ''__''"
proof -
  have a: "lowered ''__''" by code_simp
  have b: "length (flatten_key ''userId'' [''Account''] ''__'') < 63" by code_simp
  from a b flatten_key_idempotent_when_short [OF a b] show ?thesis by (intro conjI)
qed

text \<open>
  C8 as stated fails once truncation has run out of segments. The segment \<^verbatim>\<open>1_a\<close> followed
  by 61 digits becomes \<^verbatim>\<open>1a\<close> followed by 61 digits, 63 characters long; flattening that
  again drops the small letter and leaves 62 digits.
\<close>

theorem flatten_key_idempotent_counterexample:
  "flatten_key (flatten_key (''1_a'' @ replicate 61 (CHR ''1'')) [] ''__'') [] ''__''
     \<noteq> flatten_key (''1_a'' @ replicate 61 (CHR ''1'')) [] ''__''"
  by code_simp

lemma sep_before_upper_Cons: "sep_before_upper ys \<Longrightarrow> sep_before_upper (x # ys)"
  by (cases ys) simp_all

lemma sep_before_upper_append:
  "is_upper a \<Longrightarrow> sep_before_upper (xs @ CHR ''_'' # a # ys)"
  by (induction xs) (simp_all add: sep_before_upper_Cons)

lemma m_upper_sep_pair_sep:
  assumes "m_upper_sep_pair t = Some x"
  shows "sep_before_upper t"
proof -
  let ?run = "takeWhile is_upper t" and ?rest = "dropWhile is_upper t"
  from assms obtain a b zs where "?rest = CHR ''_'' # a # b # zs" and "is_upper a"
    by (auto simp: m_upper_sep_pair_def Let_def split: list.splits if_splits)
  then have "sep_before_upper (?run @ ?rest)"
    by (simp add: sep_before_upper_append)
  then show ?thesis by simp
qed

lemma m_lower_sep_upper_sep:
  assumes "m_lower_sep_upper t = Some x"
  shows "sep_before_upper t"
  using assms by (auto simp: m_lower_sep_upper_def split: list.splits if_splits)

lemma re_sub_no_sep:
  assumes "\<And>t x. m t = Some x \<Longrightarrow> sep_before_upper t"
    and "\<not> sep_before_upper s"
  shows "re_sub m s = s"
proof (rule re_sub_id [where P = "\<lambda>t. \<not> sep_before_upper t"])
  fix t assume "\<not> sep_before_upper t"
  with assms(1) [of t] show "m t = None" by (cases "m t") auto
next
  fix c cs assume "\<not> sep_before_upper (c # cs)"
  then show "\<not> sep_before_upper cs" using sep_before_upper_Cons by blast
next
  show "\<not> sep_before_upper s" by (rule assms(2))
qed

lemma m_upper_pair_hyphen_free:
  assumes t: "\<forall>c \<in> set t. c \<noteq> CHR ''-''" and m: "m_upper_pair t = Some (r, n)"
  shows "\<forall>c \<in> set r. c \<noteq> CHR ''-''"
proof -
  let ?run = "takeWhile is_upper t" and ?rest = "dropWhile is_upper t"
  from m obtain b zs where rest: "?rest = b # zs" and len: "2 \<le> length ?run"
    and r: "r = butlast ?run @ ''_'' @ [last ?run, b]"
    by (auto simp: m_upper_pair_def Let_def split: list.splits if_splits)
  have "set ?run \<subseteq> set t" by (auto dest: set_takeWhileD)
  moreover have "set (butlast ?run) \<subseteq> set ?run" by (auto dest: in_set_butlastD)
  moreover from len have "?run \<noteq> []" by auto
  then have "last ?run \<in> set ?run" by simp
  moreover have "b \<in> set t" using rest set_dropWhileD [of b is_upper t] by simp
  ultimately have "set r \<subseteq> insert (CHR ''_'') (set t)" unfolding r by auto
  moreover have "CHR ''_'' \<noteq> CHR ''-''" by simp
  ultimately show ?thesis using t by blast
qed

lemma m_lower_upper_hyphen_free:
  assumes t: "\<forall>c \<in> set t. c \<noteq> CHR ''-''" and m: "m_lower_upper t = Some (r, n)"
  shows "\<forall>c \<in> set r. c \<noteq> CHR ''-''"
proof -
  from m obtain a b zs where "t = a # b # zs" and "r = [a] @ ''_'' @ [b]"
    by (auto simp: m_lower_upper_def split: list.splits if_splits)
  then have "set r \<subseteq> insert (CHR ''_'') (set t)" by auto
  moreover have "CHR ''_'' \<noteq> CHR ''-''" by simp
  ultimately show ?thesis using t by blast
qed

text \<open>
  C6, as the code has it. For a name with no hyphen and no underscore directly before a
  capital, \<^verbatim>\<open>inflect_column_name\<close> is the two boundary passes followed by lowercasing.
  (On other names it first doubles such an underscore, and it turns hyphens into
  underscores.)
\<close>

theorem inflect_column_name_two_passes:
  assumes "\<not> sep_before_upper name" and "CHR ''-'' \<notin> set name"
  shows "inflect_column_name name = spec_snake_case name"
proof -
  have a: "re_sub m_upper_sep_pair name = name"
    using m_upper_sep_pair_sep assms(1) by (rule re_sub_no_sep)
  have b: "re_sub m_lower_sep_upper name = name"
    using m_lower_sep_upper_sep assms(1) by (rule re_sub_no_sep)
  from assms(2) have "\<forall>c \<in> set name. c \<noteq> CHR ''-''" by blast
  with m_upper_pair_hyphen_free
  have "\<forall>c \<in> set (re_sub m_upper_pair name). c \<noteq> CHR ''-''"
    by (rule re_sub_all)
  with m_lower_upper_hyphen_free
  have "\<forall>c \<in> set (re_sub m_lower_upper (re_sub m_upper_pair name)). c \<noteq> CHR ''-''"
    by (rule re_sub_all)
  then have "CHR ''-'' \<notin> set (re_sub m_lower_upper (re_sub m_upper_pair name))" by blast
  then show ?thesis
    by (simp add: inflect_column_name_def underscore_def spec_snake_case_def a b replace_char_id)
qed

theorem inflect_column_name_two_passes_witness:
  "\<not> sep_before_upper ''HTTPServer'' \<and> CHR ''-'' \<notin> set ''HTTPServer'' \<and>
   inflect_column_name ''HTTPServer'' = spec_snake_case ''HTTPServer'' \<and>
   inflect_column_name ''HTTPServer'' = ''http_server''"
proof -
  have a: "\<not> sep_before_upper ''HTTPServer''" by code_simp
  have b: "CHR ''-'' \<notin> set ''HTTPServer''" by code_simp
  have c: "inflect_column_name ''HTTPServer'' = ''http_server''" by code_simp
  from a b c inflect_column_name_two_passes [OF a b] show ?thesis by (intro conjI)
qed

text \<open>
  C6 as stated fails on \<^verbatim>\<open>a_B\<close>: the program's own substitution doubles the underscore
  before the two passes run. It fails on \<^verbatim>\<open>a-b\<close> too: the hyphen, no boundary of either
  pass, becomes an underscore.
\<close>

theorem inflect_column_name_two_passes_counterexample:
  "inflect_column_name ''a_B'' = ''a__b'' \<and> spec_snake_case ''a_B'' = ''a_b''
   \<and> inflect_column_name ''a-b'' = ''a_b'' \<and> spec_snake_case ''a-b'' = ''a-b''"
  by code_simp

section \<open>Type mapping is total on typed descriptors\<close>

lemma py_in_container: "is_container t \<Longrightarrow> py_in x t = Inr (py_in x t = Inr True)"
  by (cases t) (simp_all add: is_container_def)

lemma if_mem: "x \<in> S \<Longrightarrow> y \<in> S \<Longrightarrow> (if c then x else y) \<in> S"
  by simp

lemma Inr_mem: "x \<in> S \<Longrightarrow> \<exists>st \<in> S. (Inr x :: error + string) = Inr st"
  by blast

lemma storage_types_mem:
  "''jsonb'' \<in> set storage_types"
  "''timestamp without time zone'' \<in> set storage_types"
  "''numeric'' \<in> set storage_types"
  "''character varying'' \<in> set storage_types"
  "''bigint'' \<in> set storage_types"
  "''boolean'' \<in> set storage_types"
  by (simp_all add: storage_types_def)

lemma column_type_chain:
  assumes "map_of kvs ''type'' = Some t" and "is_container t"
  shows "column_type (JObj kvs) =
           Inr (if py_in ''object'' t = Inr True \<or> py_in ''array'' t = Inr True
                then ''jsonb''
                else if map_of kvs ''format'' = Some (JStr ''date-time'')
                then ''timestamp without time zone''
                else if py_in ''number'' t = Inr True then ''numeric''
                else if py_in ''integer'' t = Inr True \<and> py_in ''string'' t = Inr True
                then ''character varying''
                else if py_in ''integer'' t = Inr True then ''bigint''
                else if py_in ''boolean'' t = Inr True then ''boolean''
                else ''character varying'')"
proof -
  from assms(2) have ob: "py_in ''object'' t = Inr (py_in ''object'' t = Inr True)"
    by (rule py_in_container)
  show ?thesis
    unfolding column_type_def Let_def json.case assms(1) option.case
    by (subst ob) (simp only: sum.case if_distrib [of Inr] cong: if_cong)
qed

lemma column_type_storage:
  assumes "map_of kvs ''type'' = Some t" and "is_container t"
  shows "\<exists>st \<in> set storage_types. column_type (JObj kvs) = Inr st"
  unfolding column_type_chain [OF assms]
  by (rule Inr_mem) (intro if_mem storage_types_mem)

text \<open>
  C5, as the code has it. For a descriptor whose \<^verbatim>\<open>type\<close> field is present and is a
  string, a list or a mapping, \<^verbatim>\<open>column_type\<close> returns one of the six storage types, by the
  conditions in their order; a type it does not know falls through to text.
\<close>

theorem column_type_ordered_total:
  assumes "map_of kvs ''type'' = Some t" and "is_container t"
  shows "column_type (JObj kvs) =
           Inr (if py_in ''object'' t = Inr True \<or> py_in ''array'' t = Inr True
                then ''jsonb''
                else if map_of kvs ''format'' = Some (JStr ''date-time'')
                then ''timestamp without time zone''
                else if py_in ''number'' t = Inr True then ''numeric''
                else if py_in ''integer'' t = Inr True \<and> py_in ''string'' t = Inr True
                then ''character varying''
                else if py_in ''integer'' t = Inr True then ''bigint''
                else if py_in ''boolean'' t = Inr True then ''boolean''
                else ''character varying'')
         \<and> (\<exists>st \<in> set storage_types. column_type (JObj kvs) = Inr st)"
  using column_type_chain [OF assms] column_type_storage [OF assms] by (rule conjI)

theorem column_type_ordered_total_witness:
  "map_of [(''type'', JArr [JStr ''null'', JStr ''integer''])] ''type''
     = Some (JArr [JStr ''null'', JStr ''integer'']) \<and>
   is_container (JArr [JStr ''null'', JStr ''integer'']) \<and>
   column_type (JObj [(''type'', JArr [JStr ''null'', JStr ''integer''])]) = Inr ''bigint'' \<and>
   (\<exists>st \<in> set storage_types.
      column_type (JObj [(''type'', JArr [JStr ''null'', JStr ''integer''])]) = Inr st)"
proof -
  let ?t = "JArr [JStr ''null'', JStr ''integer'']"
  have a: "map_of [(''type'', ?t)] ''type'' = Some ?t" by simp
  have b: "is_container ?t" by (simp add: is_container_def)
  have c: "column_type (JObj [(''type'', ?t)]) = Inr ''bigint''" by code_simp
  from column_type_ordered_total [OF a b]
  have d: "\<exists>st \<in> set storage_types. column_type (JObj [(''type'', ?t)]) = Inr st"
    by (rule conjunct2)
  from a b c d show ?thesis by (intro conjI)
qed

text \<open>
  C5 as stated fails for a descriptor with no \<^verbatim>\<open>type\<close> field: \<^verbatim>\<open>schema_property['type']\<close>
  raises \<^verbatim>\<open>KeyError\<close>.
\<close>

theorem column_type_missing_type_counterexample:
  "column_type (JObj [(''description'', JStr ''free text'')]) = Inl (KeyError ''type'')"
  by code_simp

section \<open>Record flattening merges duplicates\<close>

subsection \<open>Dictionaries\<close>

lemma map_of_fold_update:
  "map_of (fold (\<lambda>(k, v) m. AList.update k v m) xs m0) = map_of m0 ++ map_of (rev xs)"
proof (induction xs arbitrary: m0)
  case Nil
  show ?case by simp
next
  case (Cons x xs)
  obtain k v where x: "x = (k, v)" by (cases x)
  have "map_of (fold (\<lambda>(k, v) m. AList.update k v m) (x # xs) m0)
        = map_of (AList.update k v m0) ++ map_of (rev xs)"
    using Cons.IH [of "AList.update k v m0"] x by simp
  also have "\<dots> = (map_of m0 ++ [k \<mapsto> v]) ++ map_of (rev xs)"
    by (simp add: update_conv')
  also have "\<dots> = map_of m0 ++ map_of (rev (x # xs))"
    using x by simp
  finally show ?case .
qed

lemma map_of_dict_of: "map_of (dict_of xs) = map_of (rev xs)"
  by (simp add: dict_of_def map_of_fold_update)

lemma distinct_fold_update:
  "distinct (map fst m0) \<Longrightarrow> distinct (map fst (fold (\<lambda>(k, v) m. AList.update k v m) xs m0))"
proof (induction xs arbitrary: m0)
  case Nil
  then show ?case by simp
next
  case (Cons x xs)
  obtain k v where x: "x = (k, v)" by (cases x)
  from Cons.prems have "distinct (map fst (AList.update k v m0))" by (rule distinct_update)
  then show ?case using Cons.IH x by simp
qed

lemma distinct_dict_of: "distinct (map fst (dict_of xs))"
  by (simp add: dict_of_def distinct_fold_update)

lemma map_of_rev_distinct: "distinct (map fst xs) \<Longrightarrow> map_of (rev xs) = map_of xs"
  by (rule map_of_inject_set [THEN iffD2]) (simp_all add: rev_map [symmetric])

lemma dom_map_of_rev: "dom (map_of (rev xs)) = fst ` set xs"
  by (simp add: dom_map_of_conv_image_fst)

subsection \<open>Records\<close>

lemma flatten_record_items_last:
  "map_of (rev (flatten_record_items dumps kvs parent_key sep))
     = map_of (rev (record_leaves dumps kvs parent_key sep))"
proof (induction dumps kvs parent_key sep rule: flatten_record_items.induct)
  case (1 dumps parent_key sep)
  show ?case by simp
next
  case (2 dumps k v rest parent_key sep)
  have tl: "map_of (rev (flatten_record_items dumps rest parent_key sep))
            = map_of (rev (record_leaves dumps rest parent_key sep))"
    using 2 by simp
  show ?case
  proof (cases v)
    case (JObj vkvs)
    have "map_of (rev (dict_of (flatten_record_items dumps vkvs (parent_key @ [k]) sep)))
          = map_of (rev (flatten_record_items dumps vkvs (parent_key @ [k]) sep))"
      by (simp add: map_of_rev_distinct distinct_dict_of map_of_dict_of)
    also have "\<dots> = map_of (rev (record_leaves dumps vkvs (parent_key @ [k]) sep))"
      using 2 JObj by simp
    finally show ?thesis using JObj tl by (simp add: Let_def)
  qed (simp_all add: Let_def tl)
qed

text \<open>
  C10. For every record (a mapping), \<^verbatim>\<open>flatten_record\<close> returns without an error. Its result
  has one entry for each identifier that some leaf of the record flattens to, and the value
  of the entry is the value of the last such leaf in processing order: leaves that share an
  identifier are merged, the last one winning.
\<close>

theorem flatten_record_last_wins:
  "\<exists>m. flatten_record dumps (JObj kvs) parent_key sep = Inr m
       \<and> distinct (map fst m)
       \<and> fst ` set m = fst ` set (record_leaves dumps kvs parent_key sep)
       \<and> map_of m = map_of (rev (record_leaves dumps kvs parent_key sep))"
proof -
  let ?items = "flatten_record_items dumps kvs parent_key sep"
  have m: "map_of (dict_of ?items) = map_of (rev (record_leaves dumps kvs parent_key sep))"
    by (simp add: map_of_dict_of flatten_record_items_last)
  have "fst ` set (dict_of ?items) = dom (map_of (dict_of ?items))"
    by (simp add: dom_map_of_conv_image_fst)
  also have "\<dots> = fst ` set (record_leaves dumps kvs parent_key sep)"
    unfolding m by (rule dom_map_of_rev)
  finally have "fst ` set (dict_of ?items) = fst ` set (record_leaves dumps kvs parent_key sep)" .
  with m distinct_dict_of [of ?items] show ?thesis
    by (simp add: flatten_record_def)
qed

theorem flatten_record_last_wins_witness:
  "\<exists>m. flatten_record (\<lambda>v. ''[]'') (JObj [(''aB'', JNum 1), (''a_b'', JNum 2)]) [] ''__'' = Inr m
       \<and> distinct (map fst m)
       \<and> fst ` set m
           = fst ` set (record_leaves (\<lambda>v. ''[]'') [(''aB'', JNum 1), (''a_b'', JNum 2)] [] ''__'')
       \<and> map_of m
           = map_of (rev (record_leaves (\<lambda>v. ''[]'') [(''aB'', JNum 1), (''a_b'', JNum 2)] [] ''__''))"
  by (rule flatten_record_last_wins)

section \<open>Schema flattening rejects duplicates\<close>

subsection \<open>Grouping a sorted list\<close>

lemma find_groupby_distinct:
  "sorted (map key xs) \<Longrightarrow>
   (find (\<lambda>(k, g). 1 < length g) (groupby key xs) = None) = distinct (map key xs)"
proof (induction key xs rule: groupby.induct)
  case (1 key)
  show ?case by simp
next
  case (2 key x xs)
  let ?same = "\<lambda>y. key y = key x"
  show ?case
  proof (cases "takeWhile ?same xs = []")
    case True
    then have drop: "dropWhile ?same xs = xs"
      by (cases xs) (auto split: if_splits)
    from "2.prems" have sorted: "sorted (map key xs)" and ge: "\<forall>y \<in> set xs. key x \<le> key y"
      by simp_all
    have notin: "key x \<notin> key ` set xs"
    proof
      assume "key x \<in> key ` set xs"
      then obtain y where y: "y \<in> set xs" "key y = key x" by auto
      then obtain z zs where xs: "xs = z # zs" by (cases xs) auto
      with True have "key z \<noteq> key x" by (auto split: if_splits)
      moreover from ge xs have "key x \<le> key z" by simp
      moreover from sorted xs y have "key z \<le> key y" by auto
      ultimately show False using y by simp
    qed
    have "find (\<lambda>(k, g). 1 < length g) (groupby key (x # xs))
          = find (\<lambda>(k, g). 1 < length g) (groupby key xs)"
      using True drop by simp
    also have "(\<dots> = None) = distinct (map key xs)"
      using "2.IH" sorted drop by simp
    finally show ?thesis using notin by simp
  next
    case False
    then obtain z zs where xs: "xs = z # zs" and z: "key z = key x"
      by (cases xs) (auto split: if_splits)
    then have "key x \<in> key ` set xs" by force
    moreover from False have "find (\<lambda>(k, g). 1 < length g) (groupby key (x # xs)) \<noteq> None"
      by simp
    ultimately show ?thesis by simp
  qed
qed

lemma update_fresh: "k \<notin> fst ` set al \<Longrightarrow> AList.update k v al = al @ [(k, v)]"
  by (induction al) auto

lemma fold_update_distinct:
  "distinct (map fst (m0 @ xs)) \<Longrightarrow> fold (\<lambda>(k, v) m. AList.update k v m) xs m0 = m0 @ xs"
proof (induction xs arbitrary: m0)
  case Nil
  show ?case by simp
next
  case (Cons x xs)
  obtain k v where x: "x = (k, v)" by (cases x)
  from Cons.prems x have "k \<notin> fst ` set m0" by auto
  then have "AList.update k v m0 = m0 @ [(k, v)]" by (rule update_fresh)
  moreover from Cons.prems x have "distinct (map fst ((m0 @ [(k, v)]) @ xs))" by simp
  ultimately show ?case using Cons.IH [of "m0 @ [(k, v)]"] x by simp
qed

lemma dict_of_distinct: "distinct (map fst xs) \<Longrightarrow> dict_of xs = xs"
  using fold_update_distinct [of "[]" xs] by (simp add: dict_of_def)


subsection \<open>What a successful traversal did\<close>

lemma flatten_schema_Inr:
  assumes "fst (flatten_schema d parent_key sep) = Inr m"
  obtains dkvs props items where
    "d = JObj dkvs" and "map_of dkvs ''properties'' = Some (JObj props)"
    and "fst (flatten_properties props parent_key sep) = Inr items"
    and "find (\<lambda>(k, g). 1 < length g) (groupby fst (sort_key fst items)) = None"
    and "m = dict_of (sort_key fst items)"
  using assms
  by (subst (asm) flatten_schema.simps)
     (simp add: Let_def split: json.splits option.splits prod.splits sum.splits)

lemma flatten_properties_Cons_Inr:
  assumes "fst (flatten_properties ((k, v) # rest) parent_key sep) = Inr items"
  obtains its its' where
    "fst (flatten_property k v parent_key sep) = Inr its"
    and "fst (flatten_properties rest parent_key sep) = Inr its'"
    and "items = its @ its'"
  using assms by (simp split: prod.splits sum.splits)

lemma flatten_anyOf_key:
  "flatten_anyOf k new_key vkvs = (Inr item, vkvs') \<Longrightarrow> fst item = new_key"
  by (cases "(k, new_key, vkvs)" rule: flatten_anyOf.cases)
     (auto simp: Let_def split: json.splits list.splits option.splits if_splits)

lemma flatten_property_Inr:
  assumes "fst (flatten_property k v parent_key sep) = Inr items"
  shows "(\<not> truthy v \<and> items = []) \<or>
         (truthy v \<and> (\<exists>vkvs. v = JObj vkvs \<and>
            ((\<exists>t. map_of vkvs ''type'' = Some t \<and> py_in ''object'' t = Inr True
                  \<and> fst (flatten_schema v (parent_key @ [k]) sep) = Inr items)
             \<or> (\<exists>t. map_of vkvs ''type'' = Some t \<and> py_in ''object'' t = Inr False
                  \<and> items = [(flatten_key k parent_key sep, v)])
             \<or> (map_of vkvs ''type'' = None \<and> map_of vkvs ''anyOf'' \<noteq> None
                  \<and> (\<exists>item vkvs'. flatten_anyOf k (flatten_key k parent_key sep) vkvs
                                      = (Inr item, vkvs') \<and> items = [item])))))"
  using assms
  by (subst (asm) flatten_property.simps)
     (auto simp: Let_def split: json.splits option.splits prod.splits sum.splits if_splits)


subsection \<open>The emitted identifiers are those of the leaves\<close>

lemma flatten_leaves_mset:
  "(\<forall>m. fst (flatten_schema d parent_key sep) = Inr m \<longrightarrow>
      mset (map fst m) = mset (map snd (schema_leaves d parent_key sep)))"
  "(\<forall>items. fst (flatten_properties props parent_key sep) = Inr items \<longrightarrow>
      mset (map fst items) = mset (map snd (properties_leaves props parent_key sep)))"
  "(\<forall>items. fst (flatten_property k v parent_key sep) = Inr items \<longrightarrow>
      mset (map fst items) = mset (map snd (property_leaves k v parent_key sep)))"
proof (induction d parent_key sep and props parent_key sep and k v parent_key sep
       rule: flatten_schema_flatten_properties_flatten_property.induct)
  case (1 d parent_key sep)
  show ?case
  proof (intro allI impI)
    fix m assume ok: "fst (flatten_schema d parent_key sep) = Inr m"
    from ok obtain dkvs props items where d: "d = JObj dkvs"
      and p: "map_of dkvs ''properties'' = Some (JObj props)"
      and items: "fst (flatten_properties props parent_key sep) = Inr items"
      and nodup: "find (\<lambda>(k, g). 1 < length g) (groupby fst (sort_key fst items)) = None"
      and m: "m = dict_of (sort_key fst items)"
      by (rule flatten_schema_Inr)
    have "distinct (map fst (sort_key fst items))"
      using find_groupby_distinct [of fst "sort_key fst items"] nodup by simp
    then have "m = sort_key fst items" using m by (simp add: dict_of_distinct)
    then have "mset (map fst m) = mset (map fst items)" by simp
    also have "\<dots> = mset (map snd (properties_leaves props parent_key sep))"
      using 1 [OF d p refl] items by blast
    also have "\<dots> = mset (map snd (schema_leaves d parent_key sep))"
      using d p by (subst schema_leaves.simps) simp
    finally show "mset (map fst m) = mset (map snd (schema_leaves d parent_key sep))" .
  qed
next
  case (2 parent_key sep)
  show ?case by simp
next
  case (3 k v rest parent_key sep)
  show ?case
  proof (intro allI impI)
    fix items assume ok: "fst (flatten_properties ((k, v) # rest) parent_key sep) = Inr items"
    from ok obtain its its' where a: "fst (flatten_property k v parent_key sep) = Inr its"
      and b: "fst (flatten_properties rest parent_key sep) = Inr its'"
      and c: "items = its @ its'"
      by (rule flatten_properties_Cons_Inr)
    from a have "mset (map fst its) = mset (map snd (property_leaves k v parent_key sep))"
      using "3.IH"(1) by blast
    moreover from a
    have pr: "(Inr its, snd (flatten_property k v parent_key sep))
              = flatten_property k v parent_key sep"
      by (simp add: prod_eq_iff)
    from b have "mset (map fst its') = mset (map snd (properties_leaves rest parent_key sep))"
      using "3.IH"(2) [OF pr refl] by blast
    ultimately show "mset (map fst items)
                     = mset (map snd (properties_leaves ((k, v) # rest) parent_key sep))"
      using c by simp
  qed
next
  case (4 k v parent_key sep)
  show ?case
  proof (intro allI impI)
    fix items assume ok: "fst (flatten_property k v parent_key sep) = Inr items"
    from flatten_property_Inr [OF ok]
    consider (empty) "\<not> truthy v" "items = []"
      | (object) vkvs t where "truthy v" "v = JObj vkvs" "map_of vkvs ''type'' = Some t"
          "py_in ''object'' t = Inr True"
          "fst (flatten_schema v (parent_key @ [k]) sep) = Inr items"
      | (leaf) vkvs t where "truthy v" "v = JObj vkvs" "map_of vkvs ''type'' = Some t"
          "py_in ''object'' t = Inr False" "items = [(flatten_key k parent_key sep, v)]"
      | (anyOf) vkvs item vkvs' where "truthy v" "v = JObj vkvs" "map_of vkvs ''type'' = None"
          "flatten_anyOf k (flatten_key k parent_key sep) vkvs = (Inr item, vkvs')"
          "items = [item]"
      by blast
    then show "mset (map fst items) = mset (map snd (property_leaves k v parent_key sep))"
    proof cases
      case empty
      then show ?thesis by (subst property_leaves.simps) simp
    next
      case object
      have "mset (map fst items) = mset (map snd (schema_leaves v (parent_key @ [k]) sep))"
        using 4 [OF refl _ object(2,3,4)] object(1,5) by blast
      then show ?thesis using object by (subst property_leaves.simps) simp
    next
      case leaf
      then show ?thesis by (subst property_leaves.simps) simp
    next
      case anyOf
      from anyOf(4) have "fst item = flatten_key k parent_key sep" by (rule flatten_anyOf_key)
      with anyOf show ?thesis by (subst property_leaves.simps) simp
    qed
  qed
qed


lemma distinct_sort_key_fst:
  "distinct (map fst (sort_key fst items)) = distinct (map fst items)"
proof -
  have "mset (map fst (sort_key fst items)) = mset (map fst items)" by simp
  then show ?thesis by (rule mset_eq_imp_distinct_iff)
qed

lemma flatten_schema_duplicate:
  assumes d: "d = JObj dkvs" and p: "map_of dkvs ''properties'' = Some (JObj props)"
    and items: "fst (flatten_properties props parent_key sep) = Inr items"
    and dup: "\<not> distinct (map fst items)"
  shows "\<exists>k. fst (flatten_schema d parent_key sep)
             = Inl (ValueError (''Duplicate column name produced in schema: '' @ k))"
proof -
  have "find (\<lambda>(k, g). 1 < length g) (groupby fst (sort_key fst items)) \<noteq> None"
    using find_groupby_distinct [of fst "sort_key fst items"] dup
    by (simp add: distinct_sort_key_fst)
  then obtain k g where f: "find (\<lambda>(k, g). 1 < length g) (groupby fst (sort_key fst items))
                          = Some (k, g)"
    by auto
  from items obtain props' where fp: "flatten_properties props parent_key sep = (Inr items, props')"
    by (cases "flatten_properties props parent_key sep") simp
  have "fst (flatten_schema d parent_key sep)
             = Inl (ValueError (''Duplicate column name produced in schema: '' @ k))"
    by (subst flatten_schema.simps)
       (simp only: d json.case p option.case fp prod.case sum.case Let_def f fst_conv)
  then show ?thesis ..
qed

lemma anyOf_ok_accepts:
  assumes "anyOf_ok vkvs"
  shows "\<exists>item vkvs'. flatten_anyOf k new_key vkvs = (Inr item, vkvs')"
proof (cases vkvs)
  case Nil
  with assms show ?thesis by (simp add: anyOf_ok_def)
next
  case (Cons e others)
  obtain k0 x where e: "e = (k0, x)" by (cases e)
  show ?thesis
  proof (cases x)
    case (JArr bs)
    from assms Cons e JArr have null: "NULL_TYPE \<in> set bs" and len: "length bs \<le> 2"
      and br: "(case filter (\<lambda>x. x \<noteq> NULL_TYPE) bs of
                  JObj pkvs # _ \<Rightarrow> map_of pkvs ''type'' \<noteq> None | _ \<Rightarrow> False)"
      by (simp_all add: anyOf_ok_def)
    from br obtain b rest where f: "filter (\<lambda>x. x \<noteq> NULL_TYPE) bs = b # rest"
      by (cases "filter (\<lambda>x. x \<noteq> NULL_TYPE) bs") simp_all
    from br f obtain pkvs where b: "b = JObj pkvs" by (cases b) simp_all
    from br f b obtain t where t: "map_of pkvs ''type'' = Some t" by auto
    from null len f b t show ?thesis unfolding Cons e JArr by (simp add: Let_def)
  qed (use assms Cons e in \<open>simp_all add: anyOf_ok_def\<close>)
qed

lemma flatten_ok_settled:
  "schema_ok d \<longrightarrow>
     settled (fst (flatten_schema d parent_key sep)) (schema_leaves d parent_key sep)"
  "properties_ok props \<longrightarrow>
     settled (fst (flatten_properties props parent_key sep))
       (properties_leaves props parent_key sep)"
  "property_ok v \<longrightarrow>
     settled (fst (flatten_property k v parent_key sep)) (property_leaves k v parent_key sep)"
proof (induction d parent_key sep and props parent_key sep and k v parent_key sep
       rule: flatten_schema_flatten_properties_flatten_property.induct)
  case (1 d parent_key sep)
  show ?case
  proof
    assume ok: "schema_ok d"
    then obtain dkvs props where d: "d = JObj dkvs"
      and p: "map_of dkvs ''properties'' = Some (JObj props)" and pok: "properties_ok props"
      by (subst (asm) schema_ok.simps) (auto split: json.splits option.splits)
    have leaves: "schema_leaves d parent_key sep = properties_leaves props parent_key sep"
      using d p by (subst schema_leaves.simps) simp
    from pok 1 [OF d p refl]
    have loop: "settled (fst (flatten_properties props parent_key sep))
                  (properties_leaves props parent_key sep)" by blast
    obtain r props' where fp: "flatten_properties props parent_key sep = (r, props')"
      by (cases "flatten_properties props parent_key sep")
    show "settled (fst (flatten_schema d parent_key sep)) (schema_leaves d parent_key sep)"
    proof (cases r)
      case (Inl e)
      have "fst (flatten_schema d parent_key sep) = Inl e"
        by (subst flatten_schema.simps)
           (simp only: d json.case p option.case fp prod.case sum.case Inl fst_conv)
      with loop fp Inl leaves show ?thesis by simp
    next
      case (Inr items)
      show ?thesis
      proof (cases "distinct (map fst items)")
        case True
        then have "find (\<lambda>(k, g). 1 < length g) (groupby fst (sort_key fst items)) = None"
          using find_groupby_distinct [of fst "sort_key fst items"]
          by (simp add: distinct_sort_key_fst)
        then have "fst (flatten_schema d parent_key sep) = Inr (dict_of (sort_key fst items))"
          by (subst flatten_schema.simps)
             (simp only: d json.case p option.case fp prod.case sum.case Inr fst_conv Let_def)
        then show ?thesis by (simp add: settled_def)
      next
        case False
        from fp Inr have items: "fst (flatten_properties props parent_key sep) = Inr items"
          by simp
        have "\<exists>k. fst (flatten_schema d parent_key sep)
                = Inl (ValueError (''Duplicate column name produced in schema: '' @ k))"
          using d p items False by (rule flatten_schema_duplicate)
        moreover have "mset (map fst items)
                       = mset (map snd (properties_leaves props parent_key sep))"
          using flatten_leaves_mset(2) items by blast
        then have "\<not> distinct (map snd (schema_leaves d parent_key sep))"
          using False leaves mset_eq_imp_distinct_iff by metis
        ultimately show ?thesis by (auto simp: settled_def is_duplicate_error_def)
      qed
    qed
  qed
next
  case (2 parent_key sep)
  show ?case by (simp add: settled_def)
next
  case (3 k v rest parent_key sep)
  show ?case
  proof
    assume ok: "properties_ok ((k, v) # rest)"
    then have vok: "property_ok v" and rok: "properties_ok rest" by simp_all
    from vok "3.IH"(1)
    have hd: "settled (fst (flatten_property k v parent_key sep))
                (property_leaves k v parent_key sep)" by blast
    obtain r v' where fp: "flatten_property k v parent_key sep = (r, v')"
      by (cases "flatten_property k v parent_key sep")
    show "settled (fst (flatten_properties ((k, v) # rest) parent_key sep))
            (properties_leaves ((k, v) # rest) parent_key sep)"
    proof (cases r)
      case (Inl e)
      with hd fp show ?thesis by (simp add: settled_def)
    next
      case (Inr its)
      from rok "3.IH"(2) [OF fp [symmetric] Inr]
      have tl: "settled (fst (flatten_properties rest parent_key sep))
                  (properties_leaves rest parent_key sep)" by blast
      obtain r' rest' where fr: "flatten_properties rest parent_key sep = (r', rest')"
        by (cases "flatten_properties rest parent_key sep")
      show ?thesis
      proof (cases r')
        case Inl
        with tl fr fp Inr show ?thesis by (simp add: settled_def)
      next
        case (Inr its')
        with fr fp \<open>r = Inr its\<close> show ?thesis by (simp add: settled_def)
      qed
    qed
  qed
next
  case (4 k v parent_key sep)
  show ?case
  proof
    assume ok: "property_ok v"
    show "settled (fst (flatten_property k v parent_key sep))
            (property_leaves k v parent_key sep)"
    proof (cases "truthy v")
      case False
      then show ?thesis by (subst flatten_property.simps) (simp add: settled_def)
    next
      case True
      with ok obtain vkvs where v: "v = JObj vkvs"
        by (subst (asm) property_ok.simps) (auto split: json.splits)
      show ?thesis
      proof (cases "map_of vkvs ''type''")
        case None
        with ok True v have a: "map_of vkvs ''anyOf'' \<noteq> None" and aok: "anyOf_ok vkvs"
          by (subst (asm) property_ok.simps, simp)+
        from anyOf_ok_accepts [OF aok] obtain item vkvs' where
          "flatten_anyOf k (flatten_key k parent_key sep) vkvs = (Inr item, vkvs')" by blast
        with True v None a show ?thesis
          by (subst flatten_property.simps) (simp add: settled_def Let_def)
      next
        case (Some t)
        with ok True v obtain b where b: "py_in ''object'' t = Inr b"
          and sub: "b \<longrightarrow> schema_ok v"
          by (subst (asm) property_ok.simps) (auto split: sum.splits if_splits)
        show ?thesis
        proof (cases b)
          case False
          with True v Some b show ?thesis
            by (subst flatten_property.simps) (simp add: settled_def Let_def)
        next
          case bt: True
          with sub have "schema_ok v" by simp
          with 4 [OF refl _ v Some b bt] True
          have "settled (fst (flatten_schema v (parent_key @ [k]) sep))
                  (schema_leaves v (parent_key @ [k]) sep)" by blast
          moreover have "fst (flatten_property k v parent_key sep)
                         = fst (flatten_schema v (parent_key @ [k]) sep)"
            using True v Some b bt by (subst flatten_property.simps) (simp add: Let_def)
          moreover have "property_leaves k v parent_key sep
                         = schema_leaves v (parent_key @ [k]) sep"
            using True v Some b bt by (subst property_leaves.simps) simp
          ultimately show ?thesis by simp
        qed
      qed
    qed
  qed
qed


text \<open>
  C2, as the code has it. When \<^verbatim>\<open>flatten_schema\<close> succeeds, the keys of the mapping it
  returns are pairwise distinct and in ascending order, they are the identifiers of the leaf
  paths of the schema, and no two leaf paths share an identifier. So a schema in which two
  leaf paths share an identifier never yields a mapping: the call raises. When every node
  the traversal visits has a supported shape, the exception is the \<^verbatim>\<open>ValueError\<close> for a
  duplicate column name, at whatever depth the duplicate lies, and a schema of supported
  nodes without such a duplicate succeeds.
\<close>

theorem flatten_schema_duplicates_rejected:
  "(\<forall>m. fst (flatten_schema d parent_key sep) = Inr m \<longrightarrow>
        distinct (map fst m) \<and> sorted (map fst m)
      \<and> distinct (map snd (schema_leaves d parent_key sep))
      \<and> set (map fst m) = snd ` set (schema_leaves d parent_key sep))
   \<and> (\<not> distinct (map snd (schema_leaves d parent_key sep)) \<longrightarrow>
        (\<exists>e. fst (flatten_schema d parent_key sep) = Inl e))
   \<and> (schema_ok d \<and> \<not> distinct (map snd (schema_leaves d parent_key sep)) \<longrightarrow>
        (\<exists>k. fst (flatten_schema d parent_key sep)
              = Inl (ValueError (''Duplicate column name produced in schema: '' @ k))))
   \<and> (schema_ok d \<and> distinct (map snd (schema_leaves d parent_key sep)) \<longrightarrow>
        (\<exists>m. fst (flatten_schema d parent_key sep) = Inr m))"
proof -
  have ok: "distinct (map fst m) \<and> sorted (map fst m)
      \<and> distinct (map snd (schema_leaves d parent_key sep))
      \<and> set (map fst m) = snd ` set (schema_leaves d parent_key sep)"
    if m: "fst (flatten_schema d parent_key sep) = Inr m" for m
  proof -
    from m obtain items where
      nodup: "find (\<lambda>(k, g). 1 < length g) (groupby fst (sort_key fst items)) = None"
      and dict: "m = dict_of (sort_key fst items)"
      by (rule flatten_schema_Inr)
    have dist: "distinct (map fst (sort_key fst items))"
      using find_groupby_distinct [of fst "sort_key fst items"] nodup by simp
    then have eq: "m = sort_key fst items" using dict by (simp add: dict_of_distinct)
    have leaves: "mset (map fst m) = mset (map snd (schema_leaves d parent_key sep))"
      using flatten_leaves_mset(1) m by blast
    have "distinct (map snd (schema_leaves d parent_key sep))"
      using mset_eq_imp_distinct_iff [OF leaves] dist eq by simp
    moreover have "set (map fst m) = set (map snd (schema_leaves d parent_key sep))"
      using leaves by (rule mset_eq_setD)
    moreover have "sorted (map fst m)" unfolding eq by (rule sorted_sort_key)
    ultimately show ?thesis using dist eq by simp
  qed
  have raises: "\<exists>e. fst (flatten_schema d parent_key sep) = Inl e"
    if "\<not> distinct (map snd (schema_leaves d parent_key sep))"
  proof (cases "fst (flatten_schema d parent_key sep)")
    case (Inl e)
    then show ?thesis by blast
  next
    case (Inr m)
    with ok [of m] that show ?thesis by blast
  qed
  have settled: "settled (fst (flatten_schema d parent_key sep)) (schema_leaves d parent_key sep)"
    if "schema_ok d"
    using that flatten_ok_settled(1) by blast
  have kind: "\<exists>k. fst (flatten_schema d parent_key sep)
              = Inl (ValueError (''Duplicate column name produced in schema: '' @ k))"
    if sok: "schema_ok d" and dup: "\<not> distinct (map snd (schema_leaves d parent_key sep))"
  proof -
    from raises [OF dup] obtain e where e: "fst (flatten_schema d parent_key sep) = Inl e" ..
    with settled [OF sok] have "is_duplicate_error e" by (simp add: settled_def)
    with e show ?thesis by (auto simp: is_duplicate_error_def)
  qed
  have succeeds: "\<exists>m. fst (flatten_schema d parent_key sep) = Inr m"
    if sok: "schema_ok d" and nodup: "distinct (map snd (schema_leaves d parent_key sep))"
  proof (cases "fst (flatten_schema d parent_key sep)")
    case (Inl e)
    with settled [OF sok] nodup show ?thesis by (simp add: settled_def)
  next
    case (Inr m)
    then show ?thesis by blast
  qed
  from ok raises kind succeeds show ?thesis by blast
qed

theorem flatten_schema_duplicates_rejected_witness:
  "fst (flatten_schema
          (JObj [(''properties'', JObj
             [(''b'', JObj [(''type'', JStr ''string'')]),
              (''c'', JObj [(''type'', JStr ''object''),
                           (''properties'', JObj [(''D'', JObj [(''type'', JStr ''boolean'')])])]),
              (''aB'', JObj [(''type'', JStr ''integer'')])])]) [] ''__'')
     = Inr [(''a_b'', JObj [(''type'', JStr ''integer'')]),
            (''b'', JObj [(''type'', JStr ''string'')]),
            (''c__d'', JObj [(''type'', JStr ''boolean'')])]
   \<and> distinct (map fst [(''a_b'', JObj [(''type'', JStr ''integer'')]),
            (''b'', JObj [(''type'', JStr ''string'')]),
            (''c__d'', JObj [(''type'', JStr ''boolean'')])])
   \<and> sorted (map fst [(''a_b'', JObj [(''type'', JStr ''integer'')]),
            (''b'', JObj [(''type'', JStr ''string'')]),
            (''c__d'', JObj [(''type'', JStr ''boolean'')])])
   \<and> schema_ok (JObj [(''properties'', JObj
             [(''o'', JObj [(''type'', JStr ''object''),
                           (''properties'', JObj
                              [(''aB'', JObj [(''type'', JStr ''string'')]),
                               (''a_b'', JObj [(''type'', JStr ''integer'')])])])])])
   \<and> \<not> distinct (map snd (schema_leaves (JObj [(''properties'', JObj
             [(''o'', JObj [(''type'', JStr ''object''),
                           (''properties'', JObj
                              [(''aB'', JObj [(''type'', JStr ''string'')]),
                               (''a_b'', JObj [(''type'', JStr ''integer'')])])])])]) [] ''__''))
   \<and> (\<exists>k. fst (flatten_schema
          (JObj [(''properties'', JObj
             [(''o'', JObj [(''type'', JStr ''object''),
                           (''properties'', JObj
                              [(''aB'', JObj [(''type'', JStr ''string'')]),
                               (''a_b'', JObj [(''type'', JStr ''integer'')])])])])]) [] ''__'')
        = Inl (ValueError (''Duplicate column name produced in schema: '' @ k)))"
proof -
  let ?d = "JObj [(''properties'', JObj
             [(''b'', JObj [(''type'', JStr ''string'')]),
              (''c'', JObj [(''type'', JStr ''object''),
                           (''properties'', JObj [(''D'', JObj [(''type'', JStr ''boolean'')])])]),
              (''aB'', JObj [(''type'', JStr ''integer'')])])]"
  let ?m = "[(''a_b'', JObj [(''type'', JStr ''integer'')]),
            (''b'', JObj [(''type'', JStr ''string'')]),
            (''c__d'', JObj [(''type'', JStr ''boolean'')])]"
  let ?n = "JObj [(''properties'', JObj
             [(''o'', JObj [(''type'', JStr ''object''),
                           (''properties'', JObj
                              [(''aB'', JObj [(''type'', JStr ''string'')]),
                               (''a_b'', JObj [(''type'', JStr ''integer'')])])])])]"
  have e: "fst (flatten_schema ?d [] ''__'') = Inr ?m" by code_simp
  have ok: "distinct (map fst ?m) \<and> sorted (map fst ?m)
      \<and> distinct (map snd (schema_leaves ?d [] ''__''))
      \<and> set (map fst ?m) = snd ` set (schema_leaves ?d [] ''__'')"
    by (rule mp [OF spec [OF conjunct1
          [OF flatten_schema_duplicates_rejected [of ?d "[]" "''__''"]]] e])
  have sok: "schema_ok ?n" by code_simp
  have dup: "\<not> distinct (map snd (schema_leaves ?n [] ''__''))" by code_simp
  have "\<exists>k. fst (flatten_schema ?n [] ''__'')
        = Inl (ValueError (''Duplicate column name produced in schema: '' @ k))"
    by (rule mp [OF conjunct1 [OF conjunct2 [OF conjunct2
          [OF flatten_schema_duplicates_rejected [of ?n "[]" "''__''"]]]] conjI [OF sok dup]])
  with e ok sok dup show ?thesis by blast
qed

text \<open>
  C2 as stated fails on the kind of exception. Two leaf paths share the identifier
  \<^verbatim>\<open>a_b\<close>, but the object \<^verbatim>\<open>c\<close> has no \<^verbatim>\<open>properties\<close>: the traversal raises \<^verbatim>\<open>KeyError\<close>
  there, before the duplicate check is reached.
\<close>

theorem flatten_schema_duplicates_counterexample:
  "\<not> distinct (map snd (schema_leaves
        (JObj [(''properties'', JObj
           [(''aB'', JObj [(''type'', JStr ''string'')]),
            (''a_b'', JObj [(''type'', JStr ''string'')]),
            (''c'', JObj [(''type'', JStr ''object'')])])]) [] ''__''))
   \<and> fst (flatten_schema
        (JObj [(''properties'', JObj
           [(''aB'', JObj [(''type'', JStr ''string'')]),
            (''a_b'', JObj [(''type'', JStr ''string'')]),
            (''c'', JObj [(''type'', JStr ''object'')])])]) [] ''__'')
     = Inl (KeyError ''properties'')"
  by code_simp

section \<open>Nullable unions\<close>

lemma flatten_anyOf_ValueError:
  "(fst (flatten_anyOf k new_key ((k0, JArr bs) # others))
      = Inl (ValueError (''Unsupported column type anyOf: '' @ k)))
   = (NULL_TYPE \<notin> set bs \<or> 2 < length bs)"
  by (simp add: Let_def split: list.splits json.splits option.splits)

lemma flatten_anyOf_accept:
  assumes "NULL_TYPE \<in> set bs" and "length bs \<le> 2"
    and "filter (\<lambda>x. x \<noteq> NULL_TYPE) bs = JObj pkvs # rest"
    and "map_of pkvs ''type'' = Some t"
  shows "fst (flatten_anyOf k new_key ((k0, JArr bs) # others))
         = Inr (new_key,
                JObj (if is_list t then pkvs
                      else AList.update ''type'' (JArr [JStr ''null'', t]) pkvs))"
  using assms by (simp add: Let_def)

lemma flatten_property_anyOf_node:
  assumes "map_of others ''type'' = None"
  shows "fst (flatten_property k (JObj ((''anyOf'', x) # others)) parent_key sep)
         = (case fst (flatten_anyOf k (flatten_key k parent_key sep) ((''anyOf'', x) # others)) of
              Inl e \<Rightarrow> Inl e
            | Inr item \<Rightarrow> Inr [item])"
proof -
  have t: "map_of ((''anyOf'', x) # others) ''type'' = None" using assms by simp
  have a: "map_of ((''anyOf'', x) # others) ''anyOf'' \<noteq> None" by simp
  have tr: "truthy (JObj ((''anyOf'', x) # others))" by (simp add: truthy_def)
  obtain r s where
    fa: "flatten_anyOf k (flatten_key k parent_key sep) ((''anyOf'', x) # others) = (r, s)"
    by (cases "flatten_anyOf k (flatten_key k parent_key sep) ((''anyOf'', x) # others)")
  show ?thesis
    by (subst flatten_property.simps, cases r)
       (simp_all only: Let_def tr t a fa json.case option.case prod.case sum.case fst_conv
          not_True_eq_False not_False_eq_True if_True if_False)
qed

text \<open>
  C4, as the code has it. Take a property node with no \<^verbatim>\<open>type\<close> key whose first entry is
  \<^verbatim>\<open>anyOf\<close> with a list of branches. The loop body raises the \<^verbatim>\<open>ValueError\<close> for an
  unsupported nullable union exactly when the null marker is not in the list or the list
  has more than two branches. When the null marker is there, the list has at most two
  branches and the other branch is an object with a \<^verbatim>\<open>type\<close> field, the node is accepted:
  the branch is emitted as the leaf under the node's identifier, its type \<open>t\<close> replaced by
  \<^verbatim>\<open>['null', t]\<close> unless \<open>t\<close> is a list already, which is left as it is.
\<close>

theorem flatten_property_anyOf:
  assumes "map_of others ''type'' = None"
  shows
    "((fst (flatten_property k (JObj ((''anyOf'', JArr bs) # others)) parent_key sep)
        = Inl (ValueError (''Unsupported column type anyOf: '' @ k)))
      = (NULL_TYPE \<notin> set bs \<or> 2 < length bs))
     \<and> (\<forall>pkvs rest t.
          NULL_TYPE \<in> set bs \<and> length bs \<le> 2
          \<and> filter (\<lambda>x. x \<noteq> NULL_TYPE) bs = JObj pkvs # rest
          \<and> map_of pkvs ''type'' = Some t \<longrightarrow>
          fst (flatten_property k (JObj ((''anyOf'', JArr bs) # others)) parent_key sep)
            = Inr [(flatten_key k parent_key sep,
                    JObj (if is_list t then pkvs
                          else AList.update ''type'' (JArr [JStr ''null'', t]) pkvs))])"
proof (intro conjI allI impI)
  let ?r = "fst (flatten_anyOf k (flatten_key k parent_key sep) ((''anyOf'', JArr bs) # others))"
  have node: "fst (flatten_property k (JObj ((''anyOf'', JArr bs) # others)) parent_key sep)
              = (case ?r of Inl e \<Rightarrow> Inl e | Inr item \<Rightarrow> Inr [item])"
    using assms by (rule flatten_property_anyOf_node)
  have "((case ?r of Inl e \<Rightarrow> Inl e | Inr item \<Rightarrow> Inr [item])
          = (Inl (ValueError (''Unsupported column type anyOf: '' @ k))
               :: error + (string \<times> json) list))
        = (?r = Inl (ValueError (''Unsupported column type anyOf: '' @ k)))"
    by (cases ?r) simp_all
  then show "(fst (flatten_property k (JObj ((''anyOf'', JArr bs) # others)) parent_key sep)
        = Inl (ValueError (''Unsupported column type anyOf: '' @ k)))
      = (NULL_TYPE \<notin> set bs \<or> 2 < length bs)"
    unfolding node by (simp only: flatten_anyOf_ValueError)
next
  fix pkvs rest t
  assume h: "NULL_TYPE \<in> set bs \<and> length bs \<le> 2
          \<and> filter (\<lambda>x. x \<noteq> NULL_TYPE) bs = JObj pkvs # rest
          \<and> map_of pkvs ''type'' = Some t"
  have node: "fst (flatten_property k (JObj ((''anyOf'', JArr bs) # others)) parent_key sep)
              = (case fst (flatten_anyOf k (flatten_key k parent_key sep)
                             ((''anyOf'', JArr bs) # others)) of
                   Inl e \<Rightarrow> Inl e | Inr item \<Rightarrow> Inr [item])"
    using assms by (rule flatten_property_anyOf_node)
  from h have "fst (flatten_anyOf k (flatten_key k parent_key sep) ((''anyOf'', JArr bs) # others))
         = Inr (flatten_key k parent_key sep,
                JObj (if is_list t then pkvs
                      else AList.update ''type'' (JArr [JStr ''null'', t]) pkvs))"
    by (intro flatten_anyOf_accept) simp_all
  then show "fst (flatten_property k (JObj ((''anyOf'', JArr bs) # others)) parent_key sep)
            = Inr [(flatten_key k parent_key sep,
                    JObj (if is_list t then pkvs
                          else AList.update ''type'' (JArr [JStr ''null'', t]) pkvs))]"
    unfolding node by (simp only: sum.case)
qed

theorem flatten_property_anyOf_witness:
  "map_of ([] :: (string \<times> json) list) ''type'' = None
   \<and> fst (flatten_property ''a''
            (JObj ((''anyOf'', JArr [NULL_TYPE, JObj [(''type'', JStr ''integer'')]]) # []))
            [] ''__'')
       = Inr [(flatten_key ''a'' [] ''__'',
               JObj (if is_list (JStr ''integer'') then [(''type'', JStr ''integer'')]
                     else AList.update ''type'' (JArr [JStr ''null'', JStr ''integer''])
                            [(''type'', JStr ''integer'')]))]"
proof -
  let ?bs = "[NULL_TYPE, JObj [(''type'', JStr ''integer'')]]"
  have a: "map_of ([] :: (string \<times> json) list) ''type'' = None" by simp
  have h: "NULL_TYPE \<in> set ?bs \<and> length ?bs \<le> 2
          \<and> filter (\<lambda>x. x \<noteq> NULL_TYPE) ?bs = JObj [(''type'', JStr ''integer'')] # []
          \<and> map_of [(''type'', JStr ''integer'')] ''type'' = Some (JStr ''integer'')"
    by (simp add: NULL_TYPE_def)
  from flatten_property_anyOf [OF a, of "''a''" ?bs "[]" "''__''"]
  have "\<forall>pkvs rest t.
          NULL_TYPE \<in> set ?bs \<and> length ?bs \<le> 2
          \<and> filter (\<lambda>x. x \<noteq> NULL_TYPE) ?bs = JObj pkvs # rest
          \<and> map_of pkvs ''type'' = Some t \<longrightarrow>
          fst (flatten_property ''a'' (JObj ((''anyOf'', JArr ?bs) # [])) [] ''__'')
            = Inr [(flatten_key ''a'' [] ''__'',
                    JObj (if is_list t then pkvs
                          else AList.update ''type'' (JArr [JStr ''null'', t]) pkvs))]"
    by (rule conjunct2)
  from mp [OF spec [OF spec [OF spec [OF this]]] h] a show ?thesis by (intro conjI)
qed

text \<open>
  C4 as stated fails in two places. A branch whose type is a list already is emitted as it
  is, here with the one-element type \<^verbatim>\<open>['string']\<close>, not as \<^verbatim>\<open>[null, type]\<close>. And a list
  that repeats the null marker raises although it has the marker and a single non-null
  branch.
\<close>

theorem flatten_schema_anyOf_counterexample:
  "fst (flatten_schema
          (JObj [(''properties'', JObj
             [(''a'', JObj [(''anyOf'', JArr [JObj [(''type'', JStr ''null'')],
                                             JObj [(''type'', JArr [JStr ''string''])]])])])])
          [] ''__'')
     = Inr [(''a'', JObj [(''type'', JArr [JStr ''string''])])]
   \<and> fst (flatten_schema
          (JObj [(''properties'', JObj
             [(''a'', JObj [(''anyOf'', JArr [JObj [(''type'', JStr ''null'')],
                                             JObj [(''type'', JStr ''string'')],
                                             JObj [(''type'', JStr ''null'')]])])])])
          [] ''__'')
     = Inl (ValueError ''Unsupported column type anyOf: a'')"
  by code_simp

section \<open>The input tree\<close>

lemma no_anyOf_key: "\<not> has_anyOf (JObj kvs) \<Longrightarrow> map_of kvs ''anyOf'' = None"
proof (rule ccontr)
  assume n: "\<not> has_anyOf (JObj kvs)" and "map_of kvs ''anyOf'' \<noteq> None"
  then obtain y where "map_of kvs ''anyOf'' = Some y" by auto
  then have "(''anyOf'', y) \<in> set kvs" by (rule map_of_SomeD)
  then have "has_anyOf (JObj kvs)" by (auto simp only: has_anyOf.simps)
  with n show False ..
qed

lemma no_anyOf_value:
  "\<not> has_anyOf (JObj kvs) \<Longrightarrow> map_of kvs k = Some v \<Longrightarrow> \<not> has_anyOf v"
proof
  assume n: "\<not> has_anyOf (JObj kvs)" and m: "map_of kvs k = Some v" and h: "has_anyOf v"
  from m have "(k, v) \<in> set kvs" by (rule map_of_SomeD)
  with h have "has_anyOf (JObj kvs)" by (auto simp only: has_anyOf.simps)
  with n show False ..
qed

lemma no_anyOf_Cons:
  assumes "\<not> has_anyOf (JObj ((k, v) # rest))"
  shows "\<not> has_anyOf v" and "\<not> has_anyOf (JObj rest)"
  using assms by (auto simp only: has_anyOf.simps list.set)

lemma flatten_unchanged:
  "\<not> has_anyOf d \<longrightarrow> snd (flatten_schema d parent_key sep) = d"
  "\<not> has_anyOf (JObj props) \<longrightarrow> snd (flatten_properties props parent_key sep) = props"
  "\<not> has_anyOf v \<longrightarrow> snd (flatten_property k v parent_key sep) = v"
proof (induction d parent_key sep and props parent_key sep and k v parent_key sep
       rule: flatten_schema_flatten_properties_flatten_property.induct)
  case (1 d parent_key sep)
  show ?case
  proof
    assume n: "\<not> has_anyOf d"
    show "snd (flatten_schema d parent_key sep) = d"
    proof (cases d)
      case (JObj dkvs)
      show ?thesis
      proof (cases "map_of dkvs ''properties''")
        case None
        with JObj show ?thesis by (subst flatten_schema.simps) simp
      next
        case (Some p)
        show ?thesis
        proof (cases p)
          case p: (JObj props)
          have "\<not> has_anyOf (JObj props)"
            using no_anyOf_value [of dkvs "''properties''" p] n JObj Some p by simp
          then have same: "snd (flatten_properties props parent_key sep) = props"
            using 1 [OF JObj Some p] by blast
          have "AList.update ''properties'' (JObj props) dkvs = dkvs"
            using Some p by (simp add: update_triv)
          with same JObj Some p show ?thesis
            by (subst flatten_schema.simps) (simp add: split_beta)
        qed (use JObj Some in \<open>subst flatten_schema.simps, simp\<close>)+
      qed
    qed (subst flatten_schema.simps, simp)+
  qed
next
  case (2 parent_key sep)
  show ?case by simp
next
  case (3 k v rest parent_key sep)
  show ?case
  proof
    assume n: "\<not> has_anyOf (JObj ((k, v) # rest))"
    then have nv: "\<not> has_anyOf v" and nr: "\<not> has_anyOf (JObj rest)"
      by (rule no_anyOf_Cons)+
    from nv "3.IH"(1) have v: "snd (flatten_property k v parent_key sep) = v" by blast
    obtain r v' where fp: "flatten_property k v parent_key sep = (r, v')"
      by (cases "flatten_property k v parent_key sep")
    with v have v': "v' = v" by simp
    show "snd (flatten_properties ((k, v) # rest) parent_key sep) = (k, v) # rest"
    proof (cases r)
      case (Inl e)
      with fp v' show ?thesis by simp
    next
      case (Inr its)
      have "snd (flatten_properties rest parent_key sep) = rest"
        using "3.IH"(2) [OF fp [symmetric] Inr] nr by blast
      with fp v' Inr show ?thesis by (auto split: prod.splits sum.splits)
    qed
  qed
next
  case (4 k v parent_key sep)
  show ?case
  proof
    assume n: "\<not> has_anyOf v"
    show "snd (flatten_property k v parent_key sep) = v"
    proof (cases "truthy v")
      case False
      then show ?thesis by (subst flatten_property.simps) simp
    next
      case True
      show ?thesis
      proof (cases v)
        case (JObj vkvs)
        show ?thesis
        proof (cases "map_of vkvs ''type''")
          case None
          moreover from n JObj have "\<not> has_anyOf (JObj vkvs)" by simp
          then have "map_of vkvs ''anyOf'' = None" by (rule no_anyOf_key)
          ultimately show ?thesis using True JObj
            by (subst flatten_property.simps) (simp add: Let_def)
        next
          case (Some t)
          show ?thesis
          proof (cases "py_in ''object'' t")
            case (Inl e)
            with True JObj Some show ?thesis
              by (subst flatten_property.simps) (simp add: Let_def)
          next
            case (Inr b)
            show ?thesis
            proof (cases b)
              case False
              with True JObj Some Inr show ?thesis
                by (subst flatten_property.simps) (simp add: Let_def)
            next
              case b: True
              have "snd (flatten_schema v (parent_key @ [k]) sep) = v"
                using 4 [OF refl _ JObj Some Inr b] True n by blast
              with True JObj Some Inr b show ?thesis
                by (subst flatten_property.simps) (simp add: Let_def)
            qed
          qed
        qed
      qed (use True in \<open>subst flatten_property.simps, simp add: Let_def\<close>)+
    qed
  qed
qed

text \<open>
  C9, as the code has it. A schema tree in which no object has the key \<^verbatim>\<open>anyOf\<close> is left
  as it was, whether the call returns or raises. (At a nullable union that it accepts,
  the call writes the normalized type into the branch of the tree it was given.)
\<close>

theorem flatten_schema_leaves_input_without_anyOf:
  assumes "\<not> has_anyOf d"
  shows "snd (flatten_schema d parent_key sep) = d"
  using assms flatten_unchanged(1) by blast

theorem flatten_schema_leaves_input_without_anyOf_witness:
  "\<not> has_anyOf (JObj [(''properties'', JObj
       [(''b'', JObj [(''type'', JStr ''string'')]),
        (''c'', JObj [(''type'', JStr ''object''),
                     (''properties'', JObj [(''D'', JObj [(''type'', JStr ''boolean'')])])])])])
   \<and> snd (flatten_schema (JObj [(''properties'', JObj
       [(''b'', JObj [(''type'', JStr ''string'')]),
        (''c'', JObj [(''type'', JStr ''object''),
                     (''properties'', JObj [(''D'', JObj [(''type'', JStr ''boolean'')])])])])])
       [] ''__'')
     = JObj [(''properties'', JObj
       [(''b'', JObj [(''type'', JStr ''string'')]),
        (''c'', JObj [(''type'', JStr ''object''),
                     (''properties'', JObj [(''D'', JObj [(''type'', JStr ''boolean'')])])])])]"
proof -
  let ?d = "JObj [(''properties'', JObj
       [(''b'', JObj [(''type'', JStr ''string'')]),
        (''c'', JObj [(''type'', JStr ''object''),
                     (''properties'', JObj [(''D'', JObj [(''type'', JStr ''boolean'')])])])])]"
  have a: "\<not> has_anyOf ?d" by code_simp
  from a flatten_schema_leaves_input_without_anyOf [OF a, of "[]" "''__''"]
  show ?thesis by (intro conjI)
qed

text \<open>
  C9 as stated fails: after the call the branch of the input tree has the type
  \<^verbatim>\<open>['null', 'integer']\<close> where it had \<^verbatim>\<open>'integer'\<close>.
\<close>

theorem flatten_schema_mutates_input_counterexample:
  "snd (flatten_schema
          (JObj [(''properties'', JObj
             [(''a'', JObj [(''anyOf'', JArr [JObj [(''type'', JStr ''null'')],
                                             JObj [(''type'', JStr ''integer'')]])])])])
          [] ''__'')
     = JObj [(''properties'', JObj
             [(''a'', JObj [(''anyOf'', JArr [JObj [(''type'', JStr ''null'')],
                                             JObj [(''type'', JArr [JStr ''null'', JStr ''integer''])]])])])]
   \<and> snd (flatten_schema
          (JObj [(''properties'', JObj
             [(''a'', JObj [(''anyOf'', JArr [JObj [(''type'', JStr ''null'')],
                                             JObj [(''type'', JStr ''integer'')]])])])])
          [] ''__'')
     \<noteq> JObj [(''properties'', JObj
             [(''a'', JObj [(''anyOf'', JArr [JObj [(''type'', JStr ''null'')],
                                             JObj [(''type'', JStr ''integer'')]])])])]"
  by code_simp

section \<open>The statements of a batch load\<close>

lemma execute_all_ok: "\<forall>q \<in> set qs. db q = None \<Longrightarrow> execute_all db qs = (qs, None)"
  by (induction qs) simp_all

lemma execute_all_prefix: "\<exists>rest. qs = fst (execute_all db qs) @ rest"
proof (induction qs)
  case Nil
  show ?case by simp
next
  case (Cons q qs)
  then obtain rest where rest: "qs = fst (execute_all db qs) @ rest" by blast
  show ?case
  proof (cases "db q")
    case None
    obtain tr r where e: "execute_all db qs = (tr, r)" by (cases "execute_all db qs")
    with rest have "q # qs = fst (execute_all db (q # qs)) @ rest" using None by simp
    then show ?thesis ..
  next
    case (Some e)
    then have "q # qs = fst (execute_all db (q # qs)) @ qs" by simp
    then show ?thesis ..
  qed
qed

lemma load_csv_run:
  assumes "create_table_query self True = Inr create"
  shows "load_csv db self =
           (case execute_all db (load_statements self create) of
              (trace, None) \<Rightarrow> (trace, None, self)
            | (trace, Some e) \<Rightarrow>
                if e = DataError then (trace, None, reject_file self) else (trace, Some e, self))"
  using assms by (cases "key_properties self") (simp_all add: load_csv_def load_statements_def)

text \<open>
  C3. A batch load issues its statements in a fixed order and stops at the first one the
  database refuses, so the statements issued are always an initial part of the list below.
  When the database accepts them all, the list is issued whole: create the temporary table,
  copy the file into it, then with no key properties the plain \<^verbatim>\<open>INSERT ... SELECT\<close> of
  every row of the temporary table, and with key properties first the \<^verbatim>\<open>UPDATE\<close> of the
  rows whose key columns equal those of a row of the temporary table, then the \<^verbatim>\<open>INSERT\<close>
  through the \<^verbatim>\<open>LEFT OUTER JOIN\<close> on key equality of the rows for which the key columns of
  the permanent table are null; then, in both cases, the \<^verbatim>\<open>DROP\<close> of the temporary table.
  The texts are those the methods build, from the schema name, the stream name, the column
  names and the inflected key properties.
\<close>

theorem load_csv_statements:
  assumes "create_table_query self True = Inr create"
  shows
    "(let table = schema_name self @ ''.'' @ stream self;
          temp = stream self @ ''_temp'';
          cols = map (\<lambda>(name, schema). ''\"'' @ name @ ''\"'') (flatten_schema_attr self);
          keys = map (\<lambda>p. ''\"'' @ inflect_column_name p @ ''\"'') (key_properties self);
          copy = ''COPY '' @ temp @ '' ('' @ join '', '' cols
                   @ '') FROM STDIN WITH (FORMAT CSV, ESCAPE '' @ [CHR 0x27, CHR 0x5C, CHR 0x27]
                   @ '')'';
          update = ''UPDATE '' @ table @ '' SET ''
                   @ join '', '' (map (\<lambda>c. c @ ''=s.'' @ c) cols)
                   @ '' FROM '' @ temp @ '' s\<newline>''
                   @ ''        WHERE ''
                   @ join '' AND '' (map (\<lambda>c. ''s.'' @ c @ '' = '' @ table @ ''.'' @ c) keys)
                   @ ''\<newline>'' @ ''        '';
          insert_all = ''INSERT INTO '' @ table @ '' ('' @ join '', '' cols @ '')\<newline>''
                   @ ''                    (SELECT s.* FROM '' @ temp @ '' s)\<newline>''
                   @ ''                    '';
          insert_new = ''INSERT INTO '' @ table @ '' ('' @ join '', '' cols @ '')\<newline>''
                   @ ''        (SELECT s.* FROM '' @ temp @ '' s LEFT OUTER JOIN '' @ table
                   @ '' t ON '' @ join '' AND '' (map (\<lambda>c. ''s.'' @ c @ '' = t.'' @ c) keys)
                   @ '' WHERE '' @ join '' AND '' (map (\<lambda>c. ''t.'' @ c @ '' is null'') keys)
                   @ '')\<newline>'' @ ''        '';
          drop = ''DROP TABLE '' @ temp;
          statements = (if key_properties self = []
                        then [create, copy, insert_all, drop]
                        else [create, copy, update, insert_new, drop])
      in (\<exists>rest. statements = fst (load_csv db self) @ rest)
         \<and> ((\<forall>q \<in> set statements. db q = None) \<longrightarrow>
               load_csv db self = (statements, None, self)))"
proof -
  have cols: "column_names self
              = map (\<lambda>(name, schema). ''\"'' @ name @ ''\"'') (flatten_schema_attr self)"
    by (simp add: column_names_def safe_column_name_def)
  have keys: "primary_column_names (key_properties self)
              = map (\<lambda>p. ''\"'' @ inflect_column_name p @ ''\"'') (key_properties self)"
    by (simp add: primary_column_names_def safe_column_name_def)
  have cond: "primary_key_condition self right
              = join '' AND '' (map (\<lambda>c. ''s.'' @ c @ '' = '' @ right @ ''.'' @ c)
                  (map (\<lambda>p. ''\"'' @ inflect_column_name p @ ''\"'') (key_properties self)))"
    for right by (simp only: primary_key_condition_def keys)
  have null: "primary_key_null_condition self right
              = join '' AND '' (map (\<lambda>c. right @ ''.'' @ c @ '' is null'')
                  (map (\<lambda>p. ''\"'' @ inflect_column_name p @ ''\"'') (key_properties self)))"
    for right by (simp only: primary_key_null_condition_def keys)
  have stmts: "load_statements self create
     = (let table = schema_name self @ ''.'' @ stream self;
          temp = stream self @ ''_temp'';
          cols = map (\<lambda>(name, schema). ''\"'' @ name @ ''\"'') (flatten_schema_attr self);
          keys = map (\<lambda>p. ''\"'' @ inflect_column_name p @ ''\"'') (key_properties self);
          copy = ''COPY '' @ temp @ '' ('' @ join '', '' cols
                   @ '') FROM STDIN WITH (FORMAT CSV, ESCAPE '' @ [CHR 0x27, CHR 0x5C, CHR 0x27]
                   @ '')'';
          update = ''UPDATE '' @ table @ '' SET ''
                   @ join '', '' (map (\<lambda>c. c @ ''=s.'' @ c) cols)
                   @ '' FROM '' @ temp @ '' s\<newline>''
                   @ ''        WHERE ''
                   @ join '' AND '' (map (\<lambda>c. ''s.'' @ c @ '' = '' @ table @ ''.'' @ c) keys)
                   @ ''\<newline>'' @ ''        '';
          insert_all = ''INSERT INTO '' @ table @ '' ('' @ join '', '' cols @ '')\<newline>''
                   @ ''                    (SELECT s.* FROM '' @ temp @ '' s)\<newline>''
                   @ ''                    '';
          insert_new = ''INSERT INTO '' @ table @ '' ('' @ join '', '' cols @ '')\<newline>''
                   @ ''        (SELECT s.* FROM '' @ temp @ '' s LEFT OUTER JOIN '' @ table
                   @ '' t ON '' @ join '' AND '' (map (\<lambda>c. ''s.'' @ c @ '' = t.'' @ c) keys)
                   @ '' WHERE '' @ join '' AND '' (map (\<lambda>c. ''t.'' @ c @ '' is null'') keys)
                   @ '')\<newline>'' @ ''        '';
          drop = ''DROP TABLE '' @ temp
      in if key_properties self = []
         then [create, copy, insert_all, drop]
         else [create, copy, update, insert_new, drop])"
    by (simp add: load_statements_def Let_def copy_sql_def update_from_temp_table_def
        insert_from_temp_table_def drop_temp_table_def table_name_def cols cond null)
  note run = load_csv_run [OF assms, of db]
  obtain tr r where e: "execute_all db (load_statements self create) = (tr, r)"
    by (cases "execute_all db (load_statements self create)")
  have "fst (load_csv db self) = tr"
    unfolding run e by (cases r) simp_all
  with execute_all_prefix [of "load_statements self create" db] e
  have pre: "\<exists>rest. load_statements self create = fst (load_csv db self) @ rest" by simp
  have all: "load_csv db self = (load_statements self create, None, self)"
    if "\<forall>q \<in> set (load_statements self create). db q = None"
    unfolding run using execute_all_ok [OF that] by simp
  from pre all have "(\<exists>rest. load_statements self create = fst (load_csv db self) @ rest)
         \<and> ((\<forall>q \<in> set (load_statements self create). db q = None) \<longrightarrow>
               load_csv db self = (load_statements self create, None, self))"
    by blast
  then show ?thesis unfolding stmts Let_def .
qed


theorem load_csv_statements_witness:
  "load_csv (\<lambda>q. None)
       \<lparr>schema_name = ''public'', stream = ''users'', key_properties = [''userId''],
        flatten_schema_attr = [(''name'', JObj [(''type'', JStr ''string'')]),
                               (''user_id'', JObj [(''type'', JStr ''integer'')])],
        rejected_count = 0\<rparr>
     = ([''CREATE TEMP TABLE users_temp (\"name\" character varying, \"user_id\" bigint, PRIMARY KEY (\"user_id\"))'',
         ''COPY users_temp (\"name\", \"user_id\") FROM STDIN WITH (FORMAT CSV, ESCAPE ''
           @ [CHR 0x27, CHR 0x5C, CHR 0x27] @ '')'',
         ''UPDATE public.users SET \"name\"=s.\"name\", \"user_id\"=s.\"user_id\" FROM users_temp s\<newline>        WHERE s.\"user_id\" = public.users.\"user_id\"\<newline>        '',
         ''INSERT INTO public.users (\"name\", \"user_id\")\<newline>        (SELECT s.* FROM users_temp s LEFT OUTER JOIN public.users t ON s.\"user_id\" = t.\"user_id\" WHERE t.\"user_id\" is null)\<newline>        '',
         ''DROP TABLE users_temp''],
        None,
        \<lparr>schema_name = ''public'', stream = ''users'', key_properties = [''userId''],
         flatten_schema_attr = [(''name'', JObj [(''type'', JStr ''string'')]),
                                (''user_id'', JObj [(''type'', JStr ''integer'')])],
         rejected_count = 0\<rparr>)
   \<and> load_csv (\<lambda>q. None)
       \<lparr>schema_name = ''public'', stream = ''events'', key_properties = [],
        flatten_schema_attr = [(''name'', JObj [(''type'', JStr ''string'')])],
        rejected_count = 0\<rparr>
     = ([''CREATE TEMP TABLE events_temp (\"name\" character varying)'',
         ''COPY events_temp (\"name\") FROM STDIN WITH (FORMAT CSV, ESCAPE ''
           @ [CHR 0x27, CHR 0x5C, CHR 0x27] @ '')'',
         ''INSERT INTO public.events (\"name\")\<newline>                    (SELECT s.* FROM events_temp s)\<newline>                    '',
         ''DROP TABLE events_temp''],
        None,
        \<lparr>schema_name = ''public'', stream = ''events'', key_properties = [],
         flatten_schema_attr = [(''name'', JObj [(''type'', JStr ''string'')])],
         rejected_count = 0\<rparr>)"
proof -
  let ?s1 = "\<lparr>schema_name = ''public'', stream = ''users'', key_properties = [''userId''],
        flatten_schema_attr = [(''name'', JObj [(''type'', JStr ''string'')]),
                               (''user_id'', JObj [(''type'', JStr ''integer'')])],
        rejected_count = 0\<rparr>"
  let ?c1 = "''CREATE TEMP TABLE users_temp (\"name\" character varying, \"user_id\" bigint, PRIMARY KEY (\"user_id\"))''"
  let ?s0 = "\<lparr>schema_name = ''public'', stream = ''events'', key_properties = [],
        flatten_schema_attr = [(''name'', JObj [(''type'', JStr ''string'')])],
        rejected_count = 0\<rparr>"
  let ?c0 = "''CREATE TEMP TABLE events_temp (\"name\" character varying)''"
  have a1: "create_table_query ?s1 True = Inr ?c1" by code_simp
  have a0: "create_table_query ?s0 True = Inr ?c0" by code_simp
  have i: "inflect_column_name ''userId'' = ''user_id''" by code_simp
  have ok: "\<forall>q \<in> set qs. (\<lambda>q. None :: error option) q = None" for qs :: "string list"
    by simp
  note t1 = mp [OF conjunct2 [OF load_csv_statements [OF a1, of "\<lambda>q. None", unfolded Let_def]] ok]
  note t0 = mp [OF conjunct2 [OF load_csv_statements [OF a0, of "\<lambda>q. None", unfolded Let_def]] ok]
  from t1 have r1: "load_csv (\<lambda>q. None) ?s1
     = ([?c1,
         ''COPY users_temp (\"name\", \"user_id\") FROM STDIN WITH (FORMAT CSV, ESCAPE ''
           @ [CHR 0x27, CHR 0x5C, CHR 0x27] @ '')'',
         ''UPDATE public.users SET \"name\"=s.\"name\", \"user_id\"=s.\"user_id\" FROM users_temp s\<newline>        WHERE s.\"user_id\" = public.users.\"user_id\"\<newline>        '',
         ''INSERT INTO public.users (\"name\", \"user_id\")\<newline>        (SELECT s.* FROM users_temp s LEFT OUTER JOIN public.users t ON s.\"user_id\" = t.\"user_id\" WHERE t.\"user_id\" is null)\<newline>        '',
         ''DROP TABLE users_temp''], None, ?s1)"
    by (simp add: i)
  from t0 have r0: "load_csv (\<lambda>q. None) ?s0
     = ([?c0,
         ''COPY events_temp (\"name\") FROM STDIN WITH (FORMAT CSV, ESCAPE ''
           @ [CHR 0x27, CHR 0x5C, CHR 0x27] @ '')'',
         ''INSERT INTO public.events (\"name\")\<newline>                    (SELECT s.* FROM events_temp s)\<newline>                    '',
         ''DROP TABLE events_temp''], None, ?s0)"
    by simp
  from r1 r0 show ?thesis by (rule conjI)
qed

section \<open>The statements of a column update\<close>

lemma map_of_keep_name:
  "map_of (map (\<lambda>(n, t). (f n, t)) zs) x
     = map_option snd (map_of (map (\<lambda>(n, t). (f n, (n, t))) zs) x)"
  by (induction zs) auto

lemma columns_dict_type:
  "map_option snd (map_of (dict_of (map (\<lambda>(n, t). (lower n, (n, t))) columns)) (lower name))
     = catalog_type columns name"
  by (simp add: catalog_type_def map_of_dict_of rev_map map_of_keep_name)

lemma collect_total: "\<forall>x \<in> set xs. f x = Inr (g x) \<Longrightarrow> collect f xs = Inr (map g xs)"
  by (induction xs) simp_all

lemma columns_to_add_eq:
  assumes "\<forall>(name, ps) \<in> set (flatten_schema_attr self). column_type ps = Inr (ty ps)"
  shows "columns_to_add self columns
         = Inr (map (\<lambda>(name, ps). safe_column_name name @ '' '' @ ty ps)
                  (filter (\<lambda>(name, ps). catalog_type columns name = None)
                          (flatten_schema_attr self)))"
proof -
  let ?dict = "dict_of (map (\<lambda>(n, t). (lower n, (n, t))) columns)"
  have f: "filter (\<lambda>(name, ps). map_of ?dict (lower name) = None) (flatten_schema_attr self)
           = filter (\<lambda>(name, ps). catalog_type columns name = None) (flatten_schema_attr self)"
    by (rule filter_cong [OF refl]) (auto simp: columns_dict_type [symmetric])
  have "collect (\<lambda>(name, ps). column_clause name ps)
          (filter (\<lambda>(name, ps). catalog_type columns name = None) (flatten_schema_attr self))
        = Inr (map (\<lambda>(name, ps). safe_column_name name @ '' '' @ ty ps)
                 (filter (\<lambda>(name, ps). catalog_type columns name = None)
                         (flatten_schema_attr self)))"
    using assms by (intro collect_total) (auto simp: column_clause_def)
  then show ?thesis by (simp add: columns_to_add_def Let_def f)
qed

lemma columns_to_replace_eq:
  assumes "\<forall>(name, ps) \<in> set schema. column_type ps = Inr (ty ps)"
  shows "columns_to_replace (dict_of (map (\<lambda>(n, t). (lower n, (n, t))) columns)) schema
         = Inr (map (\<lambda>(name, ps). (safe_column_name name, safe_column_name name @ '' '' @ ty ps))
                  (filter (\<lambda>(name, ps). \<exists>t. catalog_type columns name = Some t
                                              \<and> lower t \<noteq> lower (ty ps))
                          schema))"
  using assms
proof (induction schema)
  case Nil
  show ?case by simp
next
  case (Cons x schema)
  obtain name ps where x: "x = (name, ps)" by (cases x)
  let ?dict = "dict_of (map (\<lambda>(n, t). (lower n, (n, t))) columns)"
  from Cons.prems x have ty: "column_type ps = Inr (ty ps)" by simp
  from Cons have IH: "columns_to_replace ?dict schema
         = Inr (map (\<lambda>(name, ps). (safe_column_name name, safe_column_name name @ '' '' @ ty ps))
                  (filter (\<lambda>(name, ps). \<exists>t. catalog_type columns name = Some t
                                              \<and> lower t \<noteq> lower (ty ps))
                          schema))"
    by simp
  show ?case
  proof (cases "map_of ?dict (lower name)")
    case None
    then have "catalog_type columns name = None"
      using columns_dict_type [of columns name] by simp
    with None IH x show ?thesis by simp
  next
    case (Some row)
    obtain column_name data_type where row: "row = (column_name, data_type)" by (cases row)
    with Some have "catalog_type columns name = Some data_type"
      using columns_dict_type [of columns name] by simp
    with Some row IH x ty show ?thesis by simp
  qed
qed

lemma update_columns_trace:
  assumes "\<forall>(name, ps) \<in> set (flatten_schema_attr self). column_type ps = Inr (ty ps)"
    and "\<forall>q. db q = None"
  shows "update_columns db self columns =
           (map (\<lambda>(name, ps). add_column self (safe_column_name name @ '' '' @ ty ps))
              (filter (\<lambda>(name, ps). catalog_type columns name = None)
                      (flatten_schema_attr self))
            @ concat
                (map (\<lambda>(name, ps).
                        [drop_column self (safe_column_name name),
                         add_column self (safe_column_name name @ '' '' @ ty ps)])
                   (filter (\<lambda>(name, ps). \<exists>t. catalog_type columns name = Some t
                                               \<and> lower t \<noteq> lower (ty ps))
                           (flatten_schema_attr self))),
            None)"
proof -
  from assms(2) have ok: "execute_all db qs = (qs, None)" for qs
    by (intro execute_all_ok) simp
  have adds: "map (add_column self) (map (\<lambda>(name, ps). safe_column_name name @ '' '' @ ty ps) xs)
              = map (\<lambda>(name, ps). add_column self (safe_column_name name @ '' '' @ ty ps)) xs"
    for xs :: "(string \<times> json) list"
    by (induction xs) auto
  have repl: "concat (map (\<lambda>(column_name, column).
                            [drop_column self column_name, add_column self column])
                (map (\<lambda>(name, ps). (safe_column_name name,
                                        safe_column_name name @ '' '' @ ty ps)) xs))
              = concat (map (\<lambda>(name, ps).
                        [drop_column self (safe_column_name name),
                         add_column self (safe_column_name name @ '' '' @ ty ps)]) xs)"
    for xs :: "(string \<times> json) list"
    by (induction xs) auto
  show ?thesis
    unfolding update_columns_def Let_def
      columns_to_add_eq [OF assms(1)] columns_to_replace_eq [OF assms(1)] ok
    by (simp only: sum.case prod.case option.case adds repl)
qed

text \<open>
  C7. Take a synchronizer whose descriptors all have a mapped type, and a database that
  accepts every statement. Against the catalog rows of the existing table,
  \<^verbatim>\<open>update_columns\<close> issues one \<^verbatim>\<open>ADD COLUMN\<close> with the mapped type for each
  flattened-schema column the catalog does not have, then one \<^verbatim>\<open>DROP COLUMN\<close> followed by
  one \<^verbatim>\<open>ADD COLUMN\<close> for each flattened-schema column whose recorded type differs from the
  mapped type once both are lowercased, and nothing else: every statement is about such a
  column, so no other column is touched.
\<close>

theorem update_columns_statements:
  assumes "\<forall>(name, ps) \<in> set (flatten_schema_attr self). column_type ps = Inr (ty ps)"
    and "\<forall>q. db q = None"
  shows "update_columns db self columns =
           (map (\<lambda>(name, ps). add_column self (safe_column_name name @ '' '' @ ty ps))
              (filter (\<lambda>(name, ps). catalog_type columns name = None)
                      (flatten_schema_attr self))
            @ concat
                (map (\<lambda>(name, ps).
                        [drop_column self (safe_column_name name),
                         add_column self (safe_column_name name @ '' '' @ ty ps)])
                   (filter (\<lambda>(name, ps). \<exists>t. catalog_type columns name = Some t
                                               \<and> lower t \<noteq> lower (ty ps))
                           (flatten_schema_attr self))),
            None)
       \<and> (\<forall>q \<in> set (fst (update_columns db self columns)).
            \<exists>(name, ps) \<in> set (flatten_schema_attr self).
              (catalog_type columns name = None
               \<and> q = add_column self (safe_column_name name @ '' '' @ ty ps))
              \<or> ((\<exists>t. catalog_type columns name = Some t \<and> lower t \<noteq> lower (ty ps))
                  \<and> (q = drop_column self (safe_column_name name)
                      \<or> q = add_column self (safe_column_name name @ '' '' @ ty ps))))"
proof
  note tr = update_columns_trace [OF assms, of columns]
  show "update_columns db self columns =
           (map (\<lambda>(name, ps). add_column self (safe_column_name name @ '' '' @ ty ps))
              (filter (\<lambda>(name, ps). catalog_type columns name = None)
                      (flatten_schema_attr self))
            @ concat
                (map (\<lambda>(name, ps).
                        [drop_column self (safe_column_name name),
                         add_column self (safe_column_name name @ '' '' @ ty ps)])
                   (filter (\<lambda>(name, ps). \<exists>t. catalog_type columns name = Some t
                                               \<and> lower t \<noteq> lower (ty ps))
                           (flatten_schema_attr self))),
            None)"
    by (rule tr)
  show "\<forall>q \<in> set (fst (update_columns db self columns)).
            \<exists>(name, ps) \<in> set (flatten_schema_attr self).
              (catalog_type columns name = None
               \<and> q = add_column self (safe_column_name name @ '' '' @ ty ps))
              \<or> ((\<exists>t. catalog_type columns name = Some t \<and> lower t \<noteq> lower (ty ps))
                  \<and> (q = drop_column self (safe_column_name name)
                      \<or> q = add_column self (safe_column_name name @ '' '' @ ty ps)))"
    unfolding tr fst_conv by fastforce
qed

theorem update_columns_statements_witness:
  "update_columns (\<lambda>q. None)
        \<lparr>schema_name = ''p'', stream = ''u'', key_properties = [''id''],
         flatten_schema_attr = [(''id'', JObj [(''type'', JStr ''integer'')]),
                                (''name'', JObj [(''type'', JStr ''string'')]),
                                (''ok'', JObj [(''type'', JStr ''boolean'')])],
         rejected_count = 0\<rparr>
        [(''Name'', ''text''), (''ok'', ''BOOLEAN'')]
     = ([''ALTER TABLE p.u ADD COLUMN \"id\" bigint'',
         ''ALTER TABLE p.u DROP COLUMN \"name\"'',
         ''ALTER TABLE p.u ADD COLUMN \"name\" character varying''], None)
   \<and> update_columns (\<lambda>q. None)
        \<lparr>schema_name = ''p'', stream = ''u'', key_properties = [''id''],
         flatten_schema_attr = [(''id'', JObj [(''type'', JStr ''integer'')]),
                                (''name'', JObj [(''type'', JStr ''string'')]),
                                (''ok'', JObj [(''type'', JStr ''boolean'')])],
         rejected_count = 0\<rparr>
        [(''Name'', ''text''), (''ok'', ''BOOLEAN'')]
     = (map (\<lambda>(name, ps).
               add_column
                 \<lparr>schema_name = ''p'', stream = ''u'', key_properties = [''id''],
                  flatten_schema_attr = [(''id'', JObj [(''type'', JStr ''integer'')]),
                                         (''name'', JObj [(''type'', JStr ''string'')]),
                                         (''ok'', JObj [(''type'', JStr ''boolean'')])],
                  rejected_count = 0\<rparr>
                 (safe_column_name name @ '' ''
                    @ (case column_type ps of Inl e \<Rightarrow> [] | Inr t \<Rightarrow> t)))
          (filter (\<lambda>(name, ps).
                     catalog_type [(''Name'', ''text''), (''ok'', ''BOOLEAN'')] name = None)
             (flatten_schema_attr
                \<lparr>schema_name = ''p'', stream = ''u'', key_properties = [''id''],
                 flatten_schema_attr = [(''id'', JObj [(''type'', JStr ''integer'')]),
                                        (''name'', JObj [(''type'', JStr ''string'')]),
                                        (''ok'', JObj [(''type'', JStr ''boolean'')])],
                 rejected_count = 0\<rparr>))
        @ concat
            (map (\<lambda>(name, ps).
                    [drop_column
                       \<lparr>schema_name = ''p'', stream = ''u'', key_properties = [''id''],
                        flatten_schema_attr = [(''id'', JObj [(''type'', JStr ''integer'')]),
                                               (''name'', JObj [(''type'', JStr ''string'')]),
                                               (''ok'', JObj [(''type'', JStr ''boolean'')])],
                        rejected_count = 0\<rparr>
                       (safe_column_name name),
                     add_column
                       \<lparr>schema_name = ''p'', stream = ''u'', key_properties = [''id''],
                        flatten_schema_attr = [(''id'', JObj [(''type'', JStr ''integer'')]),
                                               (''name'', JObj [(''type'', JStr ''string'')]),
                                               (''ok'', JObj [(''type'', JStr ''boolean'')])],
                        rejected_count = 0\<rparr>
                       (safe_column_name name @ '' ''
                          @ (case column_type ps of Inl e \<Rightarrow> [] | Inr t \<Rightarrow> t))])
               (filter (\<lambda>(name, ps).
                          \<exists>t. catalog_type [(''Name'', ''text''), (''ok'', ''BOOLEAN'')] name
                                 = Some t
                             \<and> lower t
                                 \<noteq> lower (case column_type ps of Inl e \<Rightarrow> [] | Inr t \<Rightarrow> t))
                  (flatten_schema_attr
                     \<lparr>schema_name = ''p'', stream = ''u'', key_properties = [''id''],
                      flatten_schema_attr = [(''id'', JObj [(''type'', JStr ''integer'')]),
                                             (''name'', JObj [(''type'', JStr ''string'')]),
                                             (''ok'', JObj [(''type'', JStr ''boolean'')])],
                      rejected_count = 0\<rparr>))),
        None)"
proof -
  let ?self = "\<lparr>schema_name = ''p'', stream = ''u'', key_properties = [''id''],
         flatten_schema_attr = [(''id'', JObj [(''type'', JStr ''integer'')]),
                                (''name'', JObj [(''type'', JStr ''string'')]),
                                (''ok'', JObj [(''type'', JStr ''boolean'')])],
         rejected_count = 0\<rparr>"
  let ?ty = "\<lambda>ps. case column_type ps of Inl e \<Rightarrow> [] | Inr t \<Rightarrow> t"
  let ?cols = "[(''Name'', ''text''), (''ok'', ''BOOLEAN'')]"
  have a: "\<forall>(name, ps) \<in> set (flatten_schema_attr ?self). column_type ps = Inr (?ty ps)"
    by code_simp
  have b: "\<forall>q. (\<lambda>q. None :: error option) q = None" by simp
  have c: "update_columns (\<lambda>q. None) ?self ?cols
     = ([''ALTER TABLE p.u ADD COLUMN \"id\" bigint'',
         ''ALTER TABLE p.u DROP COLUMN \"name\"'',
         ''ALTER TABLE p.u ADD COLUMN \"name\" character varying''], None)"
    by code_simp
  note d = conjunct1 [OF update_columns_statements [OF a b, of ?cols]]
  from c d show ?thesis by (intro conjI)
qed

section \<open>Descriptors of a flattened schema\<close>

text \<open>
  Every descriptor that \<^verbatim>\<open>flatten_schema\<close> emits has a \<^verbatim>\<open>type\<close> field that is a string, a
  list or a mapping, so \<^verbatim>\<open>column_type\<close> returns a storage type for every column of a
  synchronizer that the constructor built.
\<close>

lemma typed_column_type:
  assumes "typed ps"
  shows "\<exists>st \<in> set storage_types. column_type ps = Inr st"
proof -
  from assms obtain kvs t where "ps = JObj kvs" "map_of kvs ''type'' = Some t" "is_container t"
    by (auto simp: typed_def split: json.splits option.splits)
  then show ?thesis using column_type_storage by simp
qed

lemma py_in_Inr_container: "py_in x t = Inr b \<Longrightarrow> is_container t"
  by (cases t) (simp_all add: is_container_def)

lemma flatten_anyOf_typed:
  assumes "flatten_anyOf k new_key vkvs = (Inr item, vkvs')"
  shows "typed (snd item)"
proof (cases vkvs)
  case Nil
  with assms show ?thesis by simp
next
  case (Cons e others)
  obtain k0 properties where e: "e = (k0, properties)" by (cases e)
  from assms Cons e obtain bs pkvs rest t where
    "filter (\<lambda>x. x \<noteq> NULL_TYPE) bs = JObj pkvs # rest" and t: "map_of pkvs ''type'' = Some t"
    and item: "snd item = (if is_list t then JObj pkvs
                           else JObj (AList.update ''type'' (JArr [JStr ''null'', t]) pkvs))"
    by (auto simp: Let_def split: json.splits list.splits option.splits if_splits)
  show ?thesis
  proof (cases "is_list t")
    case True
    then have "is_container t" by (cases t) (simp_all add: is_list_def is_container_def)
    with True t item show ?thesis by (simp add: typed_def)
  next
    case False
    have "map_of (AList.update ''type'' (JArr [JStr ''null'', t]) pkvs) ''type''
          = Some (JArr [JStr ''null'', t])"
      by (simp add: update_conv')
    with False item show ?thesis by (simp add: typed_def is_container_def)
  qed
qed

lemma flatten_typed:
  "(\<forall>m. fst (flatten_schema d parent_key sep) = Inr m \<longrightarrow> (\<forall>x \<in> set m. typed (snd x)))"
  "(\<forall>items. fst (flatten_properties props parent_key sep) = Inr items \<longrightarrow>
      (\<forall>x \<in> set items. typed (snd x)))"
  "(\<forall>items. fst (flatten_property k v parent_key sep) = Inr items \<longrightarrow>
      (\<forall>x \<in> set items. typed (snd x)))"
proof (induction d parent_key sep and props parent_key sep and k v parent_key sep
       rule: flatten_schema_flatten_properties_flatten_property.induct)
  case (1 d parent_key sep)
  show ?case
  proof (intro allI impI)
    fix m assume ok: "fst (flatten_schema d parent_key sep) = Inr m"
    from ok obtain dkvs props items where d: "d = JObj dkvs"
      and p: "map_of dkvs ''properties'' = Some (JObj props)"
      and items: "fst (flatten_properties props parent_key sep) = Inr items"
      and nodup: "find (\<lambda>(k, g). 1 < length g) (groupby fst (sort_key fst items)) = None"
      and m: "m = dict_of (sort_key fst items)"
      by (rule flatten_schema_Inr)
    have "distinct (map fst (sort_key fst items))"
      using find_groupby_distinct [of fst "sort_key fst items"] nodup by simp
    then have "m = sort_key fst items" using m by (simp add: dict_of_distinct)
    then have "set m = set items" by simp
    moreover have "\<forall>x \<in> set items. typed (snd x)"
      using 1 [OF d p refl] items by blast
    ultimately show "\<forall>x \<in> set m. typed (snd x)" by simp
  qed
next
  case (2 parent_key sep)
  show ?case by simp
next
  case (3 k v rest parent_key sep)
  show ?case
  proof (intro allI impI)
    fix items assume ok: "fst (flatten_properties ((k, v) # rest) parent_key sep) = Inr items"
    from ok obtain its its' where a: "fst (flatten_property k v parent_key sep) = Inr its"
      and b: "fst (flatten_properties rest parent_key sep) = Inr its'"
      and c: "items = its @ its'"
      by (rule flatten_properties_Cons_Inr)
    from a have "\<forall>x \<in> set its. typed (snd x)" using "3.IH"(1) by blast
    moreover from a
    have pr: "(Inr its, snd (flatten_property k v parent_key sep))
              = flatten_property k v parent_key sep"
      by (simp add: prod_eq_iff)
    from b have "\<forall>x \<in> set its'. typed (snd x)" using "3.IH"(2) [OF pr refl] by blast
    ultimately show "\<forall>x \<in> set items. typed (snd x)" using c by auto
  qed
next
  case (4 k v parent_key sep)
  show ?case
  proof (intro allI impI)
    fix items assume ok: "fst (flatten_property k v parent_key sep) = Inr items"
    from flatten_property_Inr [OF ok]
    consider (empty) "\<not> truthy v" "items = []"
      | (object) vkvs t where "truthy v" "v = JObj vkvs" "map_of vkvs ''type'' = Some t"
          "py_in ''object'' t = Inr True"
          "fst (flatten_schema v (parent_key @ [k]) sep) = Inr items"
      | (leaf) vkvs t where "truthy v" "v = JObj vkvs" "map_of vkvs ''type'' = Some t"
          "py_in ''object'' t = Inr False" "items = [(flatten_key k parent_key sep, v)]"
      | (anyOf) vkvs item vkvs' where "truthy v" "v = JObj vkvs" "map_of vkvs ''type'' = None"
          "flatten_anyOf k (flatten_key k parent_key sep) vkvs = (Inr item, vkvs')"
          "items = [item]"
      by blast
    then show "\<forall>x \<in> set items. typed (snd x)"
    proof cases
      case empty
      then show ?thesis by simp
    next
      case object
      show ?thesis using 4 [OF refl _ object(2,3,4)] object(1,5) by blast
    next
      case leaf
      from leaf(4) have "is_container t" by (rule py_in_Inr_container)
      with leaf show ?thesis by (simp add: typed_def)
    next
      case anyOf
      from anyOf(4) have "typed (snd item)" by (rule flatten_anyOf_typed)
      with anyOf show ?thesis by simp
    qed
  qed
qed

lemma db_sync_init_typed:
  assumes "db_sync_init schema stream_name keys schema_tree = Inr self"
  shows "\<forall>(name, ps) \<in> set (flatten_schema_attr self).
           \<exists>st \<in> set storage_types. column_type ps = Inr st"
proof -
  from assms obtain m where m: "fst (flatten_schema schema_tree [] ''__'') = Inr m"
    and self: "flatten_schema_attr self = m"
    by (auto simp: db_sync_init_def split: sum.splits)
  from m have "\<forall>x \<in> set m. typed (snd x)" using flatten_typed(1) by blast
  then show ?thesis using self typed_column_type by auto
qed

end
